theory Spec2Isabelle
  imports Complex_Main
begin

section \<open>Numbers\<close>

text \<open>
  The program computes with JavaScript numbers. They are modelled as exact reals together
  with the three special values a division by zero or an undefined operand produces:
  \<open>Infinity\<close>, \<open>-Infinity\<close> and \<open>NaN\<close>. Rounding and the sign of zero are not
  modelled: a zero is the positive zero. A comparison with \<open>NaN\<close> is false.

  The program's numbers are binary64 floating-point numbers: every operation rounds, and
  there are two zeros. Where two sides of a comparison are equal or nearly equal over the
  reals, the program can decide the other way; a sum can differ from the same sum taken in
  another order; \<open>Math.atan2\<close> tells \<open>-0\<close> from \<open>0\<close>. Away from overflow and
  underflow, the theorems of the last section speak of what rounding leaves as it is:
  signs, zero, infinity and \<open>NaN\<close>, the positions of the cursor, the tests the program
  has passed, sums of integers, and, in the examples, comparisons that a wide margin
  decides.
\<close>

datatype jsnum = Fin real | PInf | NInf | NaN

fun jneg :: "jsnum \<Rightarrow> jsnum" where
  "jneg (Fin a) = Fin (- a)"
| "jneg PInf = NInf"
| "jneg NInf = PInf"
| "jneg NaN = NaN"

fun jadd :: "jsnum \<Rightarrow> jsnum \<Rightarrow> jsnum" where
  "jadd (Fin a) (Fin b) = Fin (a + b)"
| "jadd NaN _ = NaN"
| "jadd _ NaN = NaN"
| "jadd PInf NInf = NaN"
| "jadd NInf PInf = NaN"
| "jadd PInf _ = PInf"
| "jadd _ PInf = PInf"
| "jadd NInf _ = NInf"
| "jadd _ NInf = NInf"

definition jsub :: "jsnum \<Rightarrow> jsnum \<Rightarrow> jsnum" where
  "jsub a b = jadd a (jneg b)"

text \<open>The infinity of a given sign; \<open>NaN\<close> for the sign of zero times infinity.\<close>

definition inf_of_sign :: "real \<Rightarrow> jsnum" where
  "inf_of_sign a = (if a = 0 then NaN else if 0 < a then PInf else NInf)"

fun jmul :: "jsnum \<Rightarrow> jsnum \<Rightarrow> jsnum" where
  "jmul (Fin a) (Fin b) = Fin (a * b)"
| "jmul NaN _ = NaN"
| "jmul _ NaN = NaN"
| "jmul PInf (Fin b) = inf_of_sign b"
| "jmul NInf (Fin b) = inf_of_sign (- b)"
| "jmul (Fin a) PInf = inf_of_sign a"
| "jmul (Fin a) NInf = inf_of_sign (- a)"
| "jmul PInf PInf = PInf"
| "jmul NInf NInf = PInf"
| "jmul PInf NInf = NInf"
| "jmul NInf PInf = NInf"

text \<open>Division: a non-zero number over zero is an infinity, zero over zero is \<open>NaN\<close>.\<close>

fun jdiv :: "jsnum \<Rightarrow> jsnum \<Rightarrow> jsnum" where
  "jdiv (Fin a) (Fin b) = (if b = 0 then inf_of_sign a else Fin (a / b))"
| "jdiv NaN _ = NaN"
| "jdiv _ NaN = NaN"
| "jdiv (Fin a) _ = Fin 0"
| "jdiv PInf (Fin b) = (if 0 \<le> b then PInf else NInf)"
| "jdiv NInf (Fin b) = (if 0 \<le> b then NInf else PInf)"
| "jdiv _ _ = NaN"

fun jlt :: "jsnum \<Rightarrow> jsnum \<Rightarrow> bool" where
  "jlt (Fin a) (Fin b) = (a < b)"
| "jlt NaN _ = False"
| "jlt _ NaN = False"
| "jlt _ NInf = False"
| "jlt PInf _ = False"
| "jlt _ _ = True"

fun jle :: "jsnum \<Rightarrow> jsnum \<Rightarrow> bool" where
  "jle (Fin a) (Fin b) = (a \<le> b)"
| "jle NaN _ = False"
| "jle _ NaN = False"
| "jle NInf _ = True"
| "jle _ PInf = True"
| "jle _ _ = False"

definition jgt :: "jsnum \<Rightarrow> jsnum \<Rightarrow> bool" where
  "jgt a b = jlt b a"

definition jge :: "jsnum \<Rightarrow> jsnum \<Rightarrow> bool" where
  "jge a b = jle b a"

fun jabs :: "jsnum \<Rightarrow> jsnum" where
  "jabs (Fin a) = Fin \<bar>a\<bar>"
| "jabs NaN = NaN"
| "jabs _ = PInf"

text \<open>\<open>Math.min\<close> of two numbers.\<close>

definition jmin :: "jsnum \<Rightarrow> jsnum \<Rightarrow> jsnum" where
  "jmin a b = (if a = NaN \<or> b = NaN then NaN else if jle a b then a else b)"

text \<open>\<open>Math.sqrt\<close>.\<close>

fun jsqrt :: "jsnum \<Rightarrow> jsnum" where
  "jsqrt (Fin a) = (if a < 0 then NaN else Fin (sqrt a))"
| "jsqrt PInf = PInf"
| "jsqrt _ = NaN"

text \<open>
  The remainder operator \<open>%\<close>: the result has the sign of the dividend, the quotient is
  truncated towards zero.
\<close>

definition trunc :: "real \<Rightarrow> int" where
  "trunc q = (if q < 0 then \<lceil>q\<rceil> else \<lfloor>q\<rfloor>)"

fun jmod :: "jsnum \<Rightarrow> jsnum \<Rightarrow> jsnum" where
  "jmod (Fin a) (Fin b) = (if b = 0 then NaN else Fin (a - b * of_int (trunc (a / b))))"
| "jmod (Fin a) PInf = Fin a"
| "jmod (Fin a) NInf = Fin a"
| "jmod _ _ = NaN"

text \<open>
  \<open>Math.atan2(y, x)\<close>: the angle of the point \<open>(x, y)\<close>, in \<open>(-\<pi>, \<pi>]\<close>.
\<close>

definition atan2 :: "real \<Rightarrow> real \<Rightarrow> real" where
  "atan2 y x =
     (if 0 < x then arctan (y / x)
      else if x < 0 then (if 0 \<le> y then arctan (y / x) + pi else arctan (y / x) - pi)
      else if 0 < y then pi / 2
      else if y < 0 then - (pi / 2)
      else 0)"

fun jatan2 :: "jsnum \<Rightarrow> jsnum \<Rightarrow> jsnum" where
  "jatan2 (Fin y) (Fin x) = Fin (atan2 y x)"
| "jatan2 NaN _ = NaN"
| "jatan2 _ NaN = NaN"
| "jatan2 (Fin y) PInf = Fin 0"
| "jatan2 (Fin y) NInf = (if 0 \<le> y then Fin pi else Fin (- pi))"
| "jatan2 PInf (Fin x) = Fin (pi / 2)"
| "jatan2 NInf (Fin x) = Fin (- (pi / 2))"
| "jatan2 PInf PInf = Fin (pi / 4)"
| "jatan2 PInf NInf = Fin (3 * pi / 4)"
| "jatan2 NInf PInf = Fin (- (pi / 4))"
| "jatan2 NInf NInf = Fin (- (3 * pi / 4))"

text \<open>
  \<open>Math.cos\<close>, \<open>Math.sin\<close> and \<open>Math.tan\<close>. The tangent is the quotient of sine and
  cosine, so that it is infinite at its poles.
\<close>

fun jcos :: "jsnum \<Rightarrow> jsnum" where
  "jcos (Fin a) = Fin (cos a)"
| "jcos _ = NaN"

fun jsin :: "jsnum \<Rightarrow> jsnum" where
  "jsin (Fin a) = Fin (sin a)"
| "jsin _ = NaN"

definition jtan :: "jsnum \<Rightarrow> jsnum" where
  "jtan a = jdiv (jsin a) (jcos a)"

text \<open>
  Reading an entry of an array of numbers. An index outside the array reads
  \<open>undefined\<close>, which every comparison and every arithmetic operation of the program
  treats as \<open>NaN\<close>.
\<close>

definition num_at :: "jsnum list \<Rightarrow> int \<Rightarrow> jsnum" where
  "num_at xs i = (if 0 \<le> i \<and> i < int (length xs) then xs ! nat i else NaN)"

section \<open>Errors and the vector primitives\<close>

datatype error = TypeError | ReferenceError

type_synonym point = "jsnum \<times> jsnum"

text \<open>
  Modelled from the spec: the module \<open>../vector\<close> (Vector.sub, Vector.length, Vector.add,
  Vector.rot) is not part of the source at hand. The spec names them vector subtraction,
  length and rotation. A point that was read outside the polyline is \<open>undefined\<close>
  (\<open>None\<close>); reading a component of it raises a TypeError.
\<close>

fun Vector_sub :: "point option \<Rightarrow> point option \<Rightarrow> error + point" where
  "Vector_sub (Some (x1, y1)) (Some (x2, y2)) = Inr (jsub x1 x2, jsub y1 y2)"
| "Vector_sub _ _ = Inl TypeError"

fun Vector_length :: "point \<Rightarrow> jsnum" where
  "Vector_length (x, y) = jsqrt (jadd (jmul x x) (jmul y y))"

fun Vector_add :: "point \<Rightarrow> point \<Rightarrow> point" where
  "Vector_add (x1, y1) (x2, y2) = (jadd x1 x2, jadd y1 y2)"

fun Vector_rot :: "point \<Rightarrow> jsnum \<Rightarrow> point" where
  "Vector_rot (x, y) a =
     (jsub (jmul x (jcos a)) (jmul y (jsin a)), jadd (jmul x (jsin a)) (jmul y (jcos a)))"

section \<open>The data model\<close>

datatype placement = MID_POINT | CORNER

text \<open>
  The layout configuration. An option that the constructor tests for presence is an
  \<open>option\<close>. The others are read with no test: \<open>segment_size.length\<close>, \<open>buffer[1]\<close>,
  \<open>offset[0]\<close>. A layout without one of them raises a TypeError at that read; here such
  a layout does not exist: \<open>segment_size\<close> is a list of numbers, \<open>buffer\<close> and \<open>offset\<close>
  are pairs, \<open>line_exceed\<close> and \<open>units_per_pixel\<close> are numbers.
\<close>

record Layout =
  layout_placement :: "placement option"
  layout_segment_size :: "jsnum list"
  layout_spread_factor :: "jsnum option"
  layout_articulated :: "bool option"
  layout_segment_index :: "int option"
  layout_segment_start :: "int option"
  layout_segment_end :: "int option"
  line_exceed :: jsnum
  units_per_pixel :: jsnum
  buffer :: point
  offset :: point

text \<open>The arguments the oriented box is constructed from (class OBB is external).\<close>

record OBB =
  obb_x :: jsnum
  obb_y :: jsnum
  obb_angle :: jsnum
  obb_width :: jsnum
  obb_height :: jsnum

text \<open>A label candidate, with the fields \<open>updateBBoxes\<close> assigns.\<close>

record Label =
  lb_size :: point
  lb_obb :: OBB
  lb_aabb :: "jsnum list"
  lb_offset :: point
  lb_position :: point
  lb_angle :: jsnum

text \<open>The fields of a \<open>LabelLine\<close>; \<open>labels\<close> are the candidates its group holds, by index.\<close>

record LabelLine =
  label_size :: point
  layout :: Layout
  lines :: "point list"
  position :: "point option"
  align :: string
  placement :: placement
  isArticulated :: bool
  segment_size :: "jsnum list"
  collapsed_size :: "jsnum list"
  kink_index :: int
  spread_factor :: jsnum
  should_articulate :: bool
  segment_index :: int
  segment_max :: int
  angle :: "jsnum list"
  throw_away :: bool
  labels :: "nat \<Rightarrow> Label option"

text \<open>
  What the module takes from outside: \<open>Label.epsilon\<close>, the extent of an oriented box
  (\<open>obb.getExtent()\<close>), the tile test the class inherits from its group
  (\<open>this.inTileBounds()\<close>), and how the engine reads a \<open>let\<close> variable before its
  declaration has been evaluated. \<open>updateBBoxes\<close> passes \<open>label\<close> to \<open>removeLabel\<close>
  ahead of \<open>let label\<close> in the same block: an engine that keeps the temporal dead zone
  raises a ReferenceError there, a build that compiles \<open>let\<close> to \<open>var\<close> reads
  \<open>undefined\<close>.
\<close>

record env =
  epsilon :: jsnum
  getExtent :: "OBB \<Rightarrow> jsnum list"
  inTileBounds :: "LabelLine \<Rightarrow> bool"
  let_tdz :: bool

type_synonym segment = "point option list"

text \<open>\<open>a || b\<close> on an optional index: an absent value and 0 are both falsy.\<close>

definition js_or :: "int option \<Rightarrow> int \<Rightarrow> int" where
  "js_or a b = (case a of None \<Rightarrow> b | Some n \<Rightarrow> if n = 0 then b else n)"

text \<open>\<open>this.lines[i]\<close>: \<open>undefined\<close> outside the polyline.\<close>

definition line_at :: "point list \<Rightarrow> int \<Rightarrow> point option" where
  "line_at ps i = (if 0 \<le> i \<and> i < int (length ps) then Some (ps ! nat i) else None)"

text \<open>\<open>segment[i]\<close>.\<close>

definition seg_at :: "segment \<Rightarrow> nat \<Rightarrow> point option" where
  "seg_at seg i = (if i < length seg then seg ! i else None)"

section \<open>The segment cursor\<close>

definition getCurrentSegment :: "LabelLine \<Rightarrow> segment" where
  "getCurrentSegment s =
     (case placement s of
        CORNER \<Rightarrow>
          [line_at (lines s) (segment_index s - 1),
           line_at (lines s) (segment_index s),
           line_at (lines s) (segment_index s + 1)]
      | MID_POINT \<Rightarrow>
          [line_at (lines s) (segment_index s),
           line_at (lines s) (segment_index s + 1)])"

text \<open>\<open>None\<close> is the result \<open>false\<close>: no more segments.\<close>

definition getNextSegment :: "LabelLine \<Rightarrow> (segment \<times> LabelLine) option" where
  "getNextSegment s =
     (case placement s of
        CORNER \<Rightarrow>
          (let s1 = s\<lparr>placement := MID_POINT\<rparr> in Some (getCurrentSegment s1, s1))
      | MID_POINT \<Rightarrow>
          if segment_index s \<ge> int (length (lines s)) - 2 then None
          else
            (let s1 = (if should_articulate s \<and> length (segment_size s) > 1
                       then s\<lparr>placement := CORNER\<rparr> else s);
                 s2 = s1\<lparr>segment_index := segment_index s1 + 1\<rparr>
             in Some (getCurrentSegment s2, s2)))"

section \<open>The fit evaluator\<close>

text \<open>
  The \<open>while\<close> loop of \<open>fitKinkedSegment\<close>, on the variables it changes: \<open>does_fit\<close>,
  \<open>kink_index\<close>, \<open>label_length1\<close> and \<open>label_length2\<close>.
\<close>

function kink_search ::
  "jsnum list \<Rightarrow> jsnum \<Rightarrow> jsnum \<Rightarrow> jsnum \<Rightarrow> jsnum \<Rightarrow> bool \<times> int \<times> jsnum \<times> jsnum
     \<Rightarrow> bool \<times> int \<times> jsnum \<times> jsnum" where
  "kink_search ss opp excess line_length1 line_length2 (does_fit, k, label_length1, label_length2) =
     (if \<not> does_fit \<and> k > 0 then
        (let width = num_at ss k;
             l1 = jsub label_length1 width;
             l2 = jadd label_length2 width;
             fit = (jlt (jmul opp l1) (jmul excess line_length1) \<and>
                    jlt (jmul opp l2) (jmul excess line_length2))
         in kink_search ss opp excess line_length1 line_length2
              (fit, if fit then k else k - 1, l1, l2))
      else (does_fit, k, label_length1, label_length2))"
  by pat_completeness auto
termination
  by (relation "measure (\<lambda>(ss, opp, excess, n1, n2, fit, k, l1, l2). if fit then 0 else Suc (nat k))")
    auto

text \<open>The \<open>for\<close> loop that adds the pieces up on the two sides of the kink.\<close>

definition collapse :: "jsnum list \<Rightarrow> int \<Rightarrow> jsnum \<times> jsnum" where
  "collapse ss k =
     foldl (\<lambda>(c0, c1) i. if int i < k then (jadd c0 (ss ! i), c1) else (c0, jadd c1 (ss ! i)))
       (Fin 0, Fin 0) [0..<length ss]"

definition fitKinkedSegment :: "LabelLine \<Rightarrow> segment \<Rightarrow> error + (bool \<times> LabelLine)" where
  "fitKinkedSegment s seg =
     (let excess = jdiv (Fin 100) (jsub (Fin 100) (line_exceed (layout s)));
          opp = units_per_pixel (layout s)
      in case Vector_sub (seg_at seg 0) (seg_at seg 1) of
           Inl e \<Rightarrow> Inl e
         | Inr p0p1 \<Rightarrow>
             (case Vector_sub (seg_at seg 1) (seg_at seg 2) of
                Inl e \<Rightarrow> Inl e
              | Inr p1p2 \<Rightarrow>
                  if jlt (jmul (fst p0p1) (fst p1p2)) (Fin 0) \<and>
                     jgt (jmul (snd p0p1) (snd p1p2)) (Fin 0)
                  then Inr (False, s)
                  else
                    (let line_length1 = Vector_length p0p1;
                         line_length2 = Vector_length p1p2;
                         (does_fit, k, l1, l2) =
                            kink_search (segment_size s) opp excess line_length1 line_length2
                              (False, int (length (segment_size s)) - 1, fst (label_size s), Fin 0);
                         s1 = s\<lparr>kink_index := k\<rparr>
                     in if does_fit \<and> k > 0
                        then Inr (True,
                               s1\<lparr>collapsed_size :=
                                    [fst (collapse (segment_size s) k),
                                     snd (collapse (segment_size s) k)]\<rparr>)
                        else Inr (False, s1))))"

definition doesSegmentFit :: "LabelLine \<Rightarrow> segment \<Rightarrow> error + (bool \<times> LabelLine)" where
  "doesSegmentFit s seg =
     (case placement s of
        CORNER \<Rightarrow> fitKinkedSegment s seg
      | MID_POINT \<Rightarrow>
          (let excess = jdiv (Fin 100) (jsub (Fin 100) (line_exceed (layout s)))
           in case Vector_sub (seg_at seg 0) (seg_at seg 1) of
                Inl e \<Rightarrow> Inl e
              | Inr p0p1 \<Rightarrow>
                  (let line_length = Vector_length p0p1;
                       label_length = jmul (fst (label_size s)) (units_per_pixel (layout s))
                   in Inr (jlt label_length (jmul excess line_length), s))))"

section \<open>Angle and position\<close>

definition getAngleFromSegment :: "point option \<Rightarrow> point option \<Rightarrow> error + jsnum" where
  "getAngleFromSegment pt1 pt2 =
     (let PI = Fin pi;
          PI_2 = jdiv PI (Fin 2)
      in case Vector_sub pt1 pt2 of
           Inl e \<Rightarrow> Inl e
         | Inr p1p2 \<Rightarrow>
             (let theta = jadd (jatan2 (fst p1p2) (snd p1p2)) PI_2
              in Inr (if jge theta PI_2 then jmod (jadd theta PI) (jmul (Fin 2) (Fin pi))
                      else if jlt theta (Fin 0) then jadd theta (jmul (Fin 2) PI)
                      else theta)))"

definition getCurrentAngle :: "LabelLine \<Rightarrow> error + jsnum list" where
  "getCurrentAngle s =
     (let segment = getCurrentSegment s
      in case placement s of
           CORNER \<Rightarrow>
             (case getAngleFromSegment (seg_at segment 0) (seg_at segment 1) of
                Inl e \<Rightarrow> Inl e
              | Inr theta1 \<Rightarrow>
                  (case getAngleFromSegment (seg_at segment 1) (seg_at segment 2) of
                     Inl e \<Rightarrow> Inl e
                   | Inr theta2 \<Rightarrow>
                       (case Vector_sub (seg_at segment 0) (seg_at segment 1) of
                          Inl e \<Rightarrow> Inl e
                        | Inr p0p1 \<Rightarrow>
                            (case Vector_sub (seg_at segment 1) (seg_at segment 2) of
                               Inl e \<Rightarrow> Inl e
                             | Inr p1p2 \<Rightarrow>
                                 if jge (fst p0p1) (Fin 0) \<and> jge (fst p1p2) (Fin 0)
                                 then Inr [theta2, theta1]
                                 else Inr [theta1, theta2]))))
         | MID_POINT \<Rightarrow>
             (case getAngleFromSegment (seg_at segment 0) (seg_at segment 1) of
                Inl e \<Rightarrow> Inl e
              | Inr theta \<Rightarrow> Inr [theta]))"

definition getCurrentPosition :: "LabelLine \<Rightarrow> error + point" where
  "getCurrentPosition s =
     (let segment = getCurrentSegment s
      in case placement s of
           CORNER \<Rightarrow>
             (case seg_at segment 1 of None \<Rightarrow> Inl TypeError | Some p \<Rightarrow> Inr p)
         | MID_POINT \<Rightarrow>
             (case seg_at segment 0 of
                None \<Rightarrow> Inl TypeError
              | Some p0 \<Rightarrow>
                  (case seg_at segment 1 of
                     None \<Rightarrow> Inl TypeError
                   | Some p1 \<Rightarrow>
                       Inr (jdiv (jadd (fst p0) (fst p1)) (Fin 2),
                            jdiv (jadd (snd p0) (snd p1)) (Fin 2)))))"

definition MAX_ANGLE :: jsnum where
  "MAX_ANGLE = jdiv (Fin pi) (Fin 2)"

text \<open>An angle below zero is moved up by a full turn (in both \<open>inAngleBounds\<close> and \<open>updateBBoxes\<close>).\<close>

definition lift_angle :: "jsnum \<Rightarrow> jsnum" where
  "lift_angle a = (if jlt a (Fin 0) then jadd a (jmul (Fin 2) (Fin pi)) else a)"

definition inAngleBounds :: "LabelLine \<Rightarrow> bool" where
  "inAngleBounds s =
     (case placement s of
        CORNER \<Rightarrow>
          (let angle0 = lift_angle (num_at (angle s) 0);
               angle1 = lift_angle (num_at (angle s) 1);
               theta = jabs (jsub angle1 angle0);
               theta' = jmin (jsub (jmul (Fin 2) (Fin pi)) theta) theta
           in jle theta' MAX_ANGLE)
      | MID_POINT \<Rightarrow> True)"

section \<open>The bounding-box builder\<close>

definition getOBB :: "point \<Rightarrow> jsnum \<Rightarrow> jsnum \<Rightarrow> jsnum \<Rightarrow> point \<Rightarrow> jsnum \<Rightarrow> OBB" where
  "getOBB pos width height ang off upp =
     (let (p0, p1) =
            (if fst off \<noteq> Fin 0 \<or> snd off \<noteq> Fin 0
             then (let off' = Vector_rot off ang
                   in (jadd (fst pos) (jmul (fst off') upp), jsub (snd pos) (jmul (snd off') upp)))
             else (fst pos, snd pos))
      in \<lparr>obb_x = p0, obb_y = p1, obb_angle = jneg ang, obb_width = width, obb_height = height\<rparr>)"

text \<open>The body of the \<open>for\<close> loop of the corner case, for side \<open>i\<close>.\<close>

definition corner_label :: "env \<Rightarrow> LabelLine \<Rightarrow> point \<Rightarrow> jsnum \<Rightarrow> jsnum \<Rightarrow> nat \<Rightarrow> Label" where
  "corner_label env s pos height dx i =
     (let upp = units_per_pixel (layout s);
          width_px = num_at (collapsed_size s) (int i);
          ang = num_at (angle s) (int i);
          width = jmul (jmul width_px upp) (epsilon env);
          direction = (if i = 0 then Fin (- 1) else Fin 1);
          nudge = jmul direction (jadd (jdiv width (Fin 2)) dx);
          nudge_offset = Vector_rot (nudge, Fin 0) (jneg ang);
          position' = Vector_add pos nudge_offset;
          offset' = (jadd (fst (offset (layout s)))
                       (jmul direction (jadd (jdiv (num_at (collapsed_size s) (int i)) (Fin 2)) dx)),
                     snd (offset (layout s)));
          obb = getOBB position' width height ang offset' upp
      in \<lparr>lb_size = (width_px, snd (label_size s)), lb_obb = obb, lb_aabb = getExtent env obb,
          lb_offset = offset', lb_position = pos, lb_angle = ang\<rparr>)"

text \<open>
  Modelled from the spec: \<open>removeLabel\<close> and \<open>addLabel\<close> belong to the class LabelGroup
  (\<open>./label_group\<close>), which is not part of the source at hand; the group holds one
  candidate for a straight placement and two for a corner placement, by index.
\<close>

definition removeLabel :: "nat \<Rightarrow> LabelLine \<Rightarrow> LabelLine" where
  "removeLabel i s = s\<lparr>labels := (labels s)(i := None)\<rparr>"

definition addLabel :: "nat \<Rightarrow> Label \<Rightarrow> LabelLine \<Rightarrow> LabelLine" where
  "addLabel i l s = s\<lparr>labels := (labels s)(i \<mapsto> l)\<rparr>"

definition updateBBoxes :: "env \<Rightarrow> LabelLine \<Rightarrow> error + LabelLine" where
  "updateBBoxes env s =
     (let upp = units_per_pixel (layout s);
          height = jmul (jmul (jadd (snd (label_size s)) (jmul (snd (buffer (layout s))) (Fin 2))) upp)
                     (epsilon env)
      in case placement s of
           CORNER \<Rightarrow>
             (let angle0 = lift_angle (num_at (angle s) 0);
                  angle1 = lift_angle (num_at (angle s) 1);
                  theta = jsub (Fin pi) (jabs (jsub angle1 angle0));
                  dx = jmul (spread_factor s)
                         (jabs (jdiv (snd (label_size s)) (jtan (jmul (Fin (1 / 2)) theta))))
              in if angle s = [] then Inl TypeError
                 else if let_tdz env then Inl ReferenceError
                 else
                   (case position s of
                      None \<Rightarrow> Inl TypeError
                    | Some pos \<Rightarrow>
                        Inr (addLabel 1 (corner_label env s pos height dx 1)
                              (removeLabel 1
                                (addLabel 0 (corner_label env s pos height dx 0)
                                  (removeLabel 0 s))))))
         | MID_POINT \<Rightarrow>
             if let_tdz env then Inl ReferenceError
             else if angle s = [] then Inl TypeError
             else
               (case position s of
                  None \<Rightarrow> Inl TypeError
                | Some pos \<Rightarrow>
                    (let width = jmul (jmul (jadd (fst (label_size s))
                                               (jmul (fst (buffer (layout s))) (Fin 2))) upp)
                                   (epsilon env);
                         ang = num_at (angle s) 0;
                         obb = getOBB pos width height ang (offset (layout s)) upp
                     in Inr (addLabel 0
                              \<lparr>lb_size = label_size s, lb_obb = obb, lb_aabb = getExtent env obb,
                               lb_offset = offset (layout s), lb_position = pos, lb_angle = ang\<rparr>
                              (removeLabel 0 s)))))"

section \<open>The candidate controller\<close>

definition update :: "env \<Rightarrow> LabelLine \<Rightarrow> error + LabelLine" where
  "update env s =
     (case getCurrentAngle s of
        Inl e \<Rightarrow> Inl e
      | Inr a \<Rightarrow>
          (let s1 = s\<lparr>angle := a\<rparr>
           in case getCurrentPosition s1 of
                Inl e \<Rightarrow> Inl e
              | Inr p \<Rightarrow> updateBBoxes env (s1\<lparr>position := Some p\<rparr>)))"

text \<open>
  How far the cursor is from the end of the line: the measure of the search below.
\<close>

definition cursor_left :: "LabelLine \<Rightarrow> nat" where
  "cursor_left s =
     2 * nat (int (length (lines s)) - segment_index s) + (if placement s = CORNER then 1 else 0)"

lemma kink_search_cases:
  "\<exists>fit k l1 l2. kink_search ss opp ex n1 n2 st = (fit, k, l1, l2)"
  by (cases "kink_search ss opp ex n1 n2 st") auto

lemma fitKinkedSegment_unfold:
  assumes "Vector_sub (seg_at seg 0) (seg_at seg 1) = Inr p0p1"
    and "Vector_sub (seg_at seg 1) (seg_at seg 2) = Inr p1p2"
    and "kink_search (segment_size s) (units_per_pixel (layout s))
           (jdiv (Fin 100) (jsub (Fin 100) (line_exceed (layout s))))
           (Vector_length p0p1) (Vector_length p1p2)
           (False, int (length (segment_size s)) - 1, fst (label_size s), Fin 0) = (fit, k, l1, l2)"
  shows "fitKinkedSegment s seg =
     (if jlt (jmul (fst p0p1) (fst p1p2)) (Fin 0) \<and> jgt (jmul (snd p0p1) (snd p1p2)) (Fin 0)
      then Inr (False, s)
      else if fit \<and> k > 0
      then Inr (True, s\<lparr>kink_index := k,
                  collapsed_size := [fst (collapse (segment_size s) k),
                                     snd (collapse (segment_size s) k)]\<rparr>)
      else Inr (False, s\<lparr>kink_index := k\<rparr>))"
  unfolding fitKinkedSegment_def Let_def using assms by simp

lemma fitKinkedSegment_cursor:
  assumes "fitKinkedSegment s seg = Inr (b, s')"
  shows "lines s' = lines s \<and> segment_index s' = segment_index s \<and> placement s' = placement s"
proof (cases "Vector_sub (seg_at seg 0) (seg_at seg 1)")
  case (Inl e)
  with assms show ?thesis by (simp add: fitKinkedSegment_def)
next
  case p0: (Inr p0p1)
  show ?thesis
  proof (cases "Vector_sub (seg_at seg 1) (seg_at seg 2)")
    case (Inl e)
    with assms p0 show ?thesis by (simp add: fitKinkedSegment_def)
  next
    case p1: (Inr p1p2)
    obtain fit k l1 l2 where
      "kink_search (segment_size s) (units_per_pixel (layout s))
           (jdiv (Fin 100) (jsub (Fin 100) (line_exceed (layout s))))
           (Vector_length p0p1) (Vector_length p1p2)
           (False, int (length (segment_size s)) - 1, fst (label_size s), Fin 0) = (fit, k, l1, l2)"
      using prod_cases4 by blast
    from fitKinkedSegment_unfold[OF p0 p1 this] assms show ?thesis
      by (auto split: if_splits)
  qed
qed

lemma doesSegmentFit_cursor:
  assumes "doesSegmentFit s seg = Inr (b, s')"
  shows "lines s' = lines s \<and> segment_index s' = segment_index s \<and> placement s' = placement s"
  using assms fitKinkedSegment_cursor[of s seg b s']
  by (auto simp: doesSegmentFit_def Let_def split: placement.splits sum.splits)

lemma updateBBoxes_cursor:
  assumes "updateBBoxes env s = Inr s'"
  shows "lines s' = lines s \<and> segment_index s' = segment_index s \<and> placement s' = placement s"
  using assms
  by (auto simp: updateBBoxes_def Let_def addLabel_def removeLabel_def
      split: placement.splits if_splits option.splits)

lemma update_cursor:
  assumes "update env s = Inr s'"
  shows "lines s' = lines s \<and> segment_index s' = segment_index s \<and> placement s' = placement s"
proof -
  from assms obtain a p where
    u: "updateBBoxes env (s\<lparr>angle := a, position := Some p\<rparr>) = Inr s'"
    by (auto simp: update_def Let_def split: sum.splits)
  from updateBBoxes_cursor[OF u] show ?thesis by simp
qed

lemma getNextSegment_cursor:
  assumes "getNextSegment s = Some (seg, s')"
  shows "lines s' = lines s \<and> cursor_left s' < cursor_left s"
  using assms
  by (auto simp: getNextSegment_def cursor_left_def Let_def split: placement.splits if_splits)

function getNextFittingSegment ::
  "env \<Rightarrow> segment option \<Rightarrow> LabelLine \<Rightarrow> error + (segment option \<times> LabelLine)" where
  "getNextFittingSegment env segment s =
     (case (case segment of Some seg \<Rightarrow> Some (seg, s) | None \<Rightarrow> getNextSegment s) of
        None \<Rightarrow> Inr (None, s)
      | Some (seg, s1) \<Rightarrow>
          (case doesSegmentFit s1 seg of
             Inl e \<Rightarrow> Inl e
           | Inr (fit, s2) \<Rightarrow>
               if fit then
                 (case update env s2 of
                    Inl e \<Rightarrow> Inl e
                  | Inr s3 \<Rightarrow>
                      if inTileBounds env s3 \<and> inAngleBounds s3
                      then Inr (Some seg, s3\<lparr>isArticulated := (placement s3 = CORNER)\<rparr>)
                      else getNextFittingSegment env None s3)
               else getNextFittingSegment env None s2))"
  by pat_completeness auto
termination
proof (relation "measure (\<lambda>(env, segment, s). 2 * cursor_left s + (if segment = None then 0 else 1))",
    goal_cases)
  case 1
  show ?case by simp
next
  case (2 env segment s x2 seg s1 x2a fit s2 s3)
  from 2 have c2: "cursor_left s2 = cursor_left s1"
    using doesSegmentFit_cursor[of s1 seg fit s2] by (simp add: cursor_left_def)
  from 2 have c3: "cursor_left s3 = cursor_left s2"
    using update_cursor[of env s2 s3] by (simp add: cursor_left_def)
  from 2 have "2 * cursor_left s1 < 2 * cursor_left s + (if segment = None then 0 else 1)"
    using getNextSegment_cursor[of s seg s1] by (cases segment) auto
  with c2 c3 show ?case by simp
next
  case (3 env segment s x2 seg s1 x2a fit s2)
  from 3 have c2: "cursor_left s2 = cursor_left s1"
    using doesSegmentFit_cursor[of s1 seg fit s2] by (simp add: cursor_left_def)
  from 3 have "2 * cursor_left s1 < 2 * cursor_left s + (if segment = None then 0 else 1)"
    using getNextSegment_cursor[of s seg s1] by (cases segment) auto
  with c2 show ?case by simp
qed

declare getNextFittingSegment.simps [simp del]
declare kink_search.simps [simp del]

text \<open>
  The assignments of the constructor, before it looks for the first good segment. The
  constructor does not assign \<open>this.angle\<close>: the empty list stands for the field that
  is not set yet. \<open>update\<close> assigns it a list of one or two angles before
  \<open>updateBBoxes\<close> and \<open>inAngleBounds\<close> read it; \<open>updateBBoxes\<close>, entered with the
  angle not set, raises a TypeError at \<open>this.angle[0]\<close>.
\<close>

definition LabelLine_init :: "point \<Rightarrow> point list \<Rightarrow> Layout \<Rightarrow> LabelLine" where
  "LabelLine_init sz ls lay =
     \<lparr>label_size = sz,
      layout = lay,
      lines = ls,
      position = None,
      align = ''center'',
      placement = (case layout_placement lay of None \<Rightarrow> MID_POINT | Some p \<Rightarrow> p),
      isArticulated = False,
      segment_size = layout_segment_size lay,
      collapsed_size = [],
      kink_index = 0,
      spread_factor = (case layout_spread_factor lay of Some f \<Rightarrow> f | None \<Rightarrow> Fin (1 / 2)),
      should_articulate = (layout_articulated lay \<noteq> Some False),
      segment_index = js_or (layout_segment_index lay) (js_or (layout_segment_start lay) 0),
      segment_max = js_or (layout_segment_end lay) (int (length ls)),
      angle = [],
      throw_away = False,
      labels = Map.empty\<rparr>"

text \<open>The constructor: \<open>new LabelLine(size, lines, layout)\<close>.\<close>

definition LabelLine_new :: "env \<Rightarrow> point \<Rightarrow> point list \<Rightarrow> Layout \<Rightarrow> error + LabelLine" where
  "LabelLine_new env sz ls lay =
     (let s = LabelLine_init sz ls lay
      in case getNextFittingSegment env (Some (getCurrentSegment s)) s of
           Inl e \<Rightarrow> Inl e
         | Inr (None, s') \<Rightarrow> Inr (s'\<lparr>throw_away := True\<rparr>)
         | Inr (Some seg, s') \<Rightarrow> Inr s')"

text \<open>\<open>LabelLine.nextLabel(label)\<close>; \<open>Inr None\<close> is the result \<open>false\<close>.\<close>

definition nextLabel :: "env \<Rightarrow> LabelLine \<Rightarrow> error + LabelLine option" where
  "nextLabel env label =
     (case getNextSegment label of
        None \<Rightarrow> Inr None
      | Some (seg, label') \<Rightarrow>
          (let lay = (layout label')\<lparr>layout_segment_index := Some (segment_index label'),
                                      layout_placement := Some (placement label')\<rparr>
           in case LabelLine_new env (label_size label') (lines label') lay of
                Inl e \<Rightarrow> Inl e
              | Inr n \<Rightarrow> if throw_away n then Inr None else Inr (Some n)))"
section \<open>Notions for the statements\<close>

text \<open>
  Two states have the same inputs when the fields the constructor copies from its
  arguments agree, and the same cursor when index and mode agree. \<open>straight_left\<close> counts
  the cursor positions left when no corner placement arises; \<open>accepts\<close> says that the
  search stops at a state: the fit test, the update, the tile test and the angle test
  pass there.
\<close>

definition same_inputs :: "LabelLine \<Rightarrow> LabelLine \<Rightarrow> bool" where
  "same_inputs a b =
     (lines a = lines b \<and> layout a = layout b \<and> label_size a = label_size b \<and>
      segment_size a = segment_size b \<and> should_articulate a = should_articulate b \<and>
      spread_factor a = spread_factor b \<and> segment_max a = segment_max b \<and>
      throw_away a = throw_away b)"

definition same_cursor :: "LabelLine \<Rightarrow> LabelLine \<Rightarrow> bool" where
  "same_cursor a b = (segment_index a = segment_index b \<and> placement a = placement b)"

definition straight_left :: "LabelLine \<Rightarrow> nat" where
  "straight_left s =
     nat (int (length (lines s)) - segment_index s) + (if placement s = CORNER then 1 else 0)"

definition corners_arise :: "LabelLine \<Rightarrow> bool" where
  "corners_arise s = (should_articulate s \<and> length (segment_size s) > 1)"

definition accepts :: "env \<Rightarrow> LabelLine \<Rightarrow> segment \<Rightarrow> LabelLine \<Rightarrow> bool" where
  "accepts env s1 seg s' =
     (seg = getCurrentSegment s1 \<and>
      (\<exists>s2 s3. doesSegmentFit s1 seg = Inr (True, s2) \<and> update env s2 = Inr s3 \<and>
          inTileBounds env s3 \<and> inAngleBounds s3 \<and>
          s' = s3\<lparr>isArticulated := (placement s3 = CORNER)\<rparr>))"

definition not_before :: "LabelLine \<Rightarrow> LabelLine \<Rightarrow> bool" where
  "not_before s s1 =
     (same_inputs s s1 \<and> cursor_left s1 \<le> cursor_left s \<and>
      (corners_arise s \<or> straight_left s1 \<le> straight_left s))"

definition after :: "LabelLine \<Rightarrow> LabelLine \<Rightarrow> bool" where
  "after s s1 =
     (same_inputs s s1 \<and> cursor_left s1 < cursor_left s \<and>
      (corners_arise s \<or> straight_left s1 < straight_left s))"

definition straight_fits :: "point \<Rightarrow> Layout \<Rightarrow> point \<Rightarrow> point \<Rightarrow> bool" where
  "straight_fits sz lay p0 p1 =
     jlt (jmul (fst sz) (units_per_pixel lay))
       (jmul (jdiv (Fin 100) (jsub (Fin 100) (line_exceed lay)))
          (Vector_length (jsub (fst p0) (fst p1), jsub (snd p0) (snd p1))))"

definition tested_lengths :: "LabelLine \<Rightarrow> point \<Rightarrow> point \<Rightarrow> bool \<times> int \<times> jsnum \<times> jsnum" where
  "tested_lengths s p0p1 p1p2 =
     kink_search (segment_size s) (units_per_pixel (layout s))
       (jdiv (Fin 100) (jsub (Fin 100) (line_exceed (layout s))))
       (Vector_length p0p1) (Vector_length p1p2)
       (False, int (length (segment_size s)) - 1, fst (label_size s), Fin 0)"

definition corner_points :: "LabelLine \<Rightarrow> point \<Rightarrow> point \<Rightarrow> point \<Rightarrow> bool" where
  "corner_points s a b c = (placement s = CORNER \<and> getCurrentSegment s = [Some a, Some b, Some c])"

definition angle_ok :: "jsnum \<Rightarrow> bool" where
  "angle_ok a = (case a of Fin t \<Rightarrow> 0 \<le> t \<and> t < 2 * pi | NaN \<Rightarrow> True | _ \<Rightarrow> False)"

definition on_line :: "LabelLine \<Rightarrow> bool" where
  "on_line s =
     (case placement s of
        MID_POINT \<Rightarrow> 0 \<le> segment_index s \<and> segment_index s + 1 < int (length (lines s))
      | CORNER \<Rightarrow> 1 \<le> segment_index s \<and> segment_index s + 1 < int (length (lines s)))"

definition layout_corners :: "Layout \<Rightarrow> bool" where
  "layout_corners lay = (layout_articulated lay \<noteq> Some False \<and> 1 < length (layout_segment_size lay))"

definition coherent :: "LabelLine \<Rightarrow> bool" where
  "coherent s = (corners_arise s = layout_corners (layout s))"

section \<open>Example inputs\<close>

text \<open>An environment whose tile test accepts everything and whose engine reads \<open>label\<close> as \<open>undefined\<close>.\<close>

definition plain_env :: env where
  "plain_env =
     \<lparr>epsilon = Fin 1, getExtent = (\<lambda>b. []), inTileBounds = (\<lambda>s. True), let_tdz = False\<rparr>"

text \<open>A line of ten points, one unit apart, and a layout that asks for the range from 2 to 5.\<close>

definition ten_points :: "point list" where
  "ten_points =
     [(Fin 0, Fin 0), (Fin 1, Fin 0), (Fin 2, Fin 0), (Fin 3, Fin 0), (Fin 4, Fin 0),
      (Fin 5, Fin 0), (Fin 6, Fin 0), (Fin 7, Fin 0), (Fin 8, Fin 0), (Fin 9, Fin 0)]"

definition ranged_layout :: Layout where
  "ranged_layout =
     \<lparr>layout_placement = None, layout_segment_size = [Fin 500, Fin 500],
      layout_spread_factor = None, layout_articulated = Some False,
      layout_segment_index = None, layout_segment_start = Some 2, layout_segment_end = Some 5,
      line_exceed = Fin 0, units_per_pixel = Fin 1, buffer = (Fin 0, Fin 0),
      offset = (Fin 0, Fin 0)\<rparr>"

text \<open>A line of three points and a layout seeded in corner mode at index 1.\<close>

definition three_points :: "point list" where
  "three_points = [(Fin 0, Fin 0), (Fin 100, Fin 0), (Fin 200, Fin 0)]"

definition corner_layout :: Layout where
  "corner_layout =
     \<lparr>layout_placement = Some CORNER, layout_segment_size = [Fin 5, Fin 5],
      layout_spread_factor = None, layout_articulated = None,
      layout_segment_index = Some 1, layout_segment_start = None, layout_segment_end = None,
      line_exceed = Fin 0, units_per_pixel = Fin 1, buffer = (Fin 0, Fin 0),
      offset = (Fin 0, Fin 0)\<rparr>"

definition two_points :: "point list" where
  "two_points = [(Fin 0, Fin 0), (Fin 100, Fin 0)]"

definition plain_layout :: Layout where
  "plain_layout =
     \<lparr>layout_placement = None, layout_segment_size = [Fin 5, Fin 5],
      layout_spread_factor = None, layout_articulated = None,
      layout_segment_index = None, layout_segment_start = None, layout_segment_end = None,
      line_exceed = Fin 0, units_per_pixel = Fin 1, buffer = (Fin 0, Fin 0),
      offset = (Fin 0, Fin 0)\<rparr>"

definition bent_points :: "point list" where
  "bent_points = [(Fin 0, Fin 0), (Fin 4, Fin 1), (Fin 8, Fin 0)]"

definition bent_layout :: Layout where
  "bent_layout =
     \<lparr>layout_placement = Some CORNER, layout_segment_size = [Fin 1, Fin 1],
      layout_spread_factor = None, layout_articulated = None,
      layout_segment_index = Some 1, layout_segment_start = None, layout_segment_end = None,
      line_exceed = Fin 0, units_per_pixel = Fin 1, buffer = (Fin 0, Fin 0),
      offset = (Fin 0, Fin 0)\<rparr>"



definition zero_piece_layout :: Layout where
  "zero_piece_layout = corner_layout\<lparr>layout_segment_size := [Fin 0, Fin 10]\<rparr>"

definition four_points :: "point list" where
  "four_points = [(Fin 0, Fin 0), (Fin 100, Fin 0), (Fin 200, Fin 0), (Fin 300, Fin 0)]"

definition rigid_layout :: Layout where
  "rigid_layout = plain_layout\<lparr>layout_articulated := Some False\<rparr>"

text \<open>
  The states of the attempts on \<open>four_points\<close>, with the label of width 10 and the two
  pieces of width 5: where the cursor stands, and the fields the fit test reads.
\<close>

definition east_state :: "LabelLine \<Rightarrow> placement \<Rightarrow> int \<Rightarrow> bool" where
  "east_state s p i =
     (placement s = p \<and> segment_index s = i \<and> lines s = four_points \<and>
      label_size s = (Fin 10, Fin 2) \<and> line_exceed (layout s) = Fin 0 \<and>
      units_per_pixel (layout s) = Fin 1 \<and> layout_segment_size (layout s) = [Fin 5, Fin 5] \<and>
      layout_articulated (layout s) = None \<and> layout_segment_start (layout s) = None \<and>
      should_articulate s \<and> segment_size s = [Fin 5, Fin 5] \<and> \<not> throw_away s)"

definition east_layout :: "Layout \<Rightarrow> bool" where
  "east_layout lay =
     (line_exceed lay = Fin 0 \<and> units_per_pixel lay = Fin 1 \<and>
      layout_segment_size lay = [Fin 5, Fin 5] \<and> layout_articulated lay = None \<and>
      layout_segment_start lay = None)"

definition one_point :: "point list" where
  "one_point = [(Fin 0, Fin 0)]"

definition corner_first_layout :: Layout where
  "corner_first_layout = plain_layout\<lparr>layout_placement := Some CORNER\<rparr>"

text \<open>What the constructor returns on three of the examples.\<close>

definition bent_attempt :: "error + LabelLine" where
  "bent_attempt = LabelLine_new plain_env (Fin 2, Fin 1) bent_points bent_layout"

definition zero_piece_attempt :: "error + LabelLine" where
  "zero_piece_attempt = LabelLine_new plain_env (Fin 10, Fin 2) three_points zero_piece_layout"

definition four_points_attempt :: "error + LabelLine" where
  "four_points_attempt = LabelLine_new plain_env (Fin 10, Fin 2) four_points plain_layout"

section \<open>Lemmas on the numbers\<close>

lemma atan2_bounds: "- pi < atan2 y x \<and> atan2 y x \<le> pi"
proof -
  have b: "- (pi / 2) < arctan (y / x)" "arctan (y / x) < pi / 2"
    using arctan_bounded[of "y / x"] by simp_all
  have p: "0 < pi" by simp
  show ?thesis
  proof (cases "0 < x")
    case True
    with b p show ?thesis by (simp add: atan2_def)
  next
    case nx: False
    show ?thesis
    proof (cases "x < 0")
      case True
      show ?thesis
      proof (cases "0 \<le> y")
        case True
        with \<open>x < 0\<close> have "y / x \<le> 0" by (simp add: divide_nonneg_neg)
        then have le: "arctan (y / x) \<le> 0" by simp
        from True \<open>x < 0\<close> have "atan2 y x = arctan (y / x) + pi" by (simp add: atan2_def)
        with b p le show ?thesis by linarith
      next
        case False
        with \<open>x < 0\<close> have "0 < y / x" by (simp add: divide_neg_neg)
        then have gt: "0 < arctan (y / x)" by simp
        from False \<open>x < 0\<close> have "atan2 y x = arctan (y / x) - pi" by (simp add: atan2_def)
        with b p gt show ?thesis by linarith
      qed
    next
      case False
      have "- (pi / 2) \<le> pi" using p by linarith
      with False nx p show ?thesis by (simp add: atan2_def)
    qed
  qed
qed

lemma mod_range:
  fixes a b :: real
  assumes "0 \<le> a" "0 < b"
  shows "0 \<le> a - b * of_int (trunc (a / b)) \<and> a - b * of_int (trunc (a / b)) < b"
proof -
  from assms have q: "0 \<le> a / b" by simp
  then have t: "trunc (a / b) = \<lfloor>a / b\<rfloor>" by (simp add: trunc_def)
  have "of_int \<lfloor>a / b\<rfloor> \<le> a / b" by simp
  with assms have "b * of_int \<lfloor>a / b\<rfloor> \<le> b * (a / b)"
    by (intro mult_left_mono) simp_all
  with assms have l: "b * of_int \<lfloor>a / b\<rfloor> \<le> a" by simp
  have "a / b < of_int \<lfloor>a / b\<rfloor> + 1" by linarith
  with assms have "b * (a / b) < b * (of_int \<lfloor>a / b\<rfloor> + 1)"
    by (intro mult_strict_left_mono) simp_all
  with assms have u: "a - b * of_int \<lfloor>a / b\<rfloor> < b" by (simp add: algebra_simps)
  from l u t show ?thesis by simp
qed

lemma getAngleFromSegment_fin:
  "\<exists>t. getAngleFromSegment (Some (Fin x1, Fin y1)) (Some (Fin x2, Fin y2)) = Inr (Fin t) \<and>
       0 \<le> t \<and> t < 2 * pi"
proof -
  define th where "th = atan2 (x1 - x2) (y1 - y2) + pi / 2"
  have b: "- pi < atan2 (x1 - x2) (y1 - y2)" "atan2 (x1 - x2) (y1 - y2) \<le> pi"
    using atan2_bounds[of "x1 - x2" "y1 - y2"] by simp_all
  have p: "0 < pi" by simp
  have g: "getAngleFromSegment (Some (Fin x1, Fin y1)) (Some (Fin x2, Fin y2)) =
     Inr (if pi / 2 \<le> th then Fin (th + pi - 2 * pi * of_int (trunc ((th + pi) / (2 * pi))))
          else if th < 0 then Fin (th + 2 * pi) else Fin th)"
    by (simp add: getAngleFromSegment_def Let_def jsub_def jge_def th_def)
  show ?thesis
  proof (cases "pi / 2 \<le> th")
    case True
    with p have "0 \<le> th + pi" by linarith
    from mod_range[OF this, of "2 * pi"] p True g show ?thesis by simp
  next
    case False
    show ?thesis
    proof (cases "th < 0")
      case True
      from b have "- (pi / 2) < th" by (simp add: th_def)
      with True \<open>\<not> pi / 2 \<le> th\<close> g p show ?thesis by simp
    next
      case nn: False
      with False g p show ?thesis by simp
    qed
  qed
qed

section \<open>Lemmas on the search\<close>

lemma fitKinkedSegment_state:
  assumes "fitKinkedSegment s seg = Inr (b, s')"
  shows "(\<not> b \<and> s' = s) \<or> (\<exists>k. \<not> b \<and> s' = s\<lparr>kink_index := k\<rparr>) \<or>
         (\<exists>k. b \<and> 0 < k \<and> s' = s\<lparr>kink_index := k,
             collapsed_size := [fst (collapse (segment_size s) k), snd (collapse (segment_size s) k)]\<rparr>)"
proof (cases "Vector_sub (seg_at seg 0) (seg_at seg 1)")
  case (Inl e)
  with assms show ?thesis by (simp add: fitKinkedSegment_def)
next
  case p0: (Inr p0p1)
  show ?thesis
  proof (cases "Vector_sub (seg_at seg 1) (seg_at seg 2)")
    case (Inl e)
    with assms p0 show ?thesis by (simp add: fitKinkedSegment_def)
  next
    case p1: (Inr p1p2)
    obtain fit k l1 l2 where
      "kink_search (segment_size s) (units_per_pixel (layout s))
           (jdiv (Fin 100) (jsub (Fin 100) (line_exceed (layout s))))
           (Vector_length p0p1) (Vector_length p1p2)
           (False, int (length (segment_size s)) - 1, fst (label_size s), Fin 0) = (fit, k, l1, l2)"
      using prod_cases4 by blast
    from fitKinkedSegment_unfold[OF p0 p1 this] assms show ?thesis
      by (auto split: if_splits)
  qed
qed

lemma same_inputs_refl: "same_inputs s s"
  by (simp add: same_inputs_def)

lemma same_inputs_trans: "same_inputs a b \<Longrightarrow> same_inputs b c \<Longrightarrow> same_inputs a c"
  by (simp add: same_inputs_def)

lemma same_cursor_trans: "same_cursor a b \<Longrightarrow> same_cursor b c \<Longrightarrow> same_cursor a c"
  by (simp add: same_cursor_def)

lemma doesSegmentFit_same:
  assumes "doesSegmentFit s seg = Inr (b, s')"
  shows "same_inputs s s' \<and> same_cursor s s'"
proof (cases "placement s")
  case MID_POINT
  with assms show ?thesis
    by (auto simp: doesSegmentFit_def Let_def same_inputs_def same_cursor_def split: sum.splits)
next
  case CORNER
  with assms have "fitKinkedSegment s seg = Inr (b, s')" by (simp add: doesSegmentFit_def)
  from fitKinkedSegment_state[OF this] show ?thesis
    by (auto simp: same_inputs_def same_cursor_def)
qed

lemma updateBBoxes_state:
  assumes "updateBBoxes env s = Inr s'"
  shows "\<exists>lb. s' = s\<lparr>labels := lb\<rparr>"
  using assms
  by (auto simp: updateBBoxes_def Let_def addLabel_def removeLabel_def
      split: placement.splits if_splits option.splits)

lemma update_state:
  assumes "update env s = Inr s'"
  shows "\<exists>a p lb. getCurrentAngle s = Inr a \<and> getCurrentPosition s = Inr p \<and>
           s' = s\<lparr>angle := a, position := Some p, labels := lb\<rparr>"
proof -
  from assms obtain a p where
    a: "getCurrentAngle s = Inr a" and p: "getCurrentPosition (s\<lparr>angle := a\<rparr>) = Inr p" and
    u: "updateBBoxes env (s\<lparr>angle := a, position := Some p\<rparr>) = Inr s'"
    by (auto simp: update_def Let_def split: sum.splits)
  from p have p': "getCurrentPosition s = Inr p"
    by (simp add: getCurrentPosition_def getCurrentSegment_def cong: placement.case_cong)
  from updateBBoxes_state[OF u] a p' show ?thesis by auto
qed

lemma update_same:
  assumes "update env s = Inr s'"
  shows "same_inputs s s' \<and> same_cursor s s' \<and> kink_index s' = kink_index s \<and>
         collapsed_size s' = collapsed_size s"
  using update_state[OF assms] by (auto simp: same_inputs_def same_cursor_def)

lemma getNextSegment_same:
  assumes "getNextSegment s = Some (seg, s')"
  shows "same_inputs s s' \<and> seg = getCurrentSegment s' \<and> cursor_left s' < cursor_left s \<and>
         (corners_arise s \<or> straight_left s' < straight_left s)"
  using assms
  by (auto simp: getNextSegment_def cursor_left_def straight_left_def corners_arise_def Let_def
      same_inputs_def split: placement.splits if_splits)

lemma same_cursor_measures:
  assumes "same_inputs a b" "same_cursor a b"
  shows "cursor_left a = cursor_left b \<and> straight_left a = straight_left b \<and>
         getCurrentSegment a = getCurrentSegment b \<and> corners_arise a = corners_arise b"
  using assms
  by (simp add: same_inputs_def same_cursor_def cursor_left_def straight_left_def
      getCurrentSegment_def corners_arise_def cong: placement.case_cong)


lemma after_not_before: "after s s1 \<Longrightarrow> not_before s s1"
  by (auto simp: after_def not_before_def)

lemma not_before_refl: "not_before s s"
  by (simp add: not_before_def same_inputs_refl)

lemma same_then_after:
  assumes "same_inputs a b" "same_cursor a b" "after b c"
  shows "after a c"
  using assms same_cursor_measures[OF assms(1,2)] same_inputs_trans[of a b c]
  by (auto simp: after_def)

lemma after_trans: "after a b \<Longrightarrow> after b c \<Longrightarrow> after a c"
  using same_inputs_trans[of a b c]
  by (auto simp: after_def corners_arise_def same_inputs_def)

lemma not_before_after: "not_before a b \<Longrightarrow> after b c \<Longrightarrow> after a c"
  using same_inputs_trans[of a b c]
  by (auto simp: after_def not_before_def corners_arise_def same_inputs_def)

lemma search_accepts:
  assumes "getNextFittingSegment env segment s = Inr (Some seg, s')"
    and "segment = None \<or> segment = Some (getCurrentSegment s)"
  shows "\<exists>s1. accepts env s1 seg s' \<and> not_before s s1 \<and> (segment = None \<longrightarrow> after s s1)"
  using assms
proof (induction env segment s rule: getNextFittingSegment.induct)
  case (1 env segment s)
  define start where
    "start = (case segment of Some seg \<Rightarrow> Some (seg, s) | None \<Rightarrow> getNextSegment s)"
  have unf: "getNextFittingSegment env segment s =
      (case start of
        None \<Rightarrow> Inr (None, s)
      | Some (seg, s1) \<Rightarrow>
          (case doesSegmentFit s1 seg of
             Inl e \<Rightarrow> Inl e
           | Inr (fit, s2) \<Rightarrow>
               if fit then
                 (case update env s2 of
                    Inl e \<Rightarrow> Inl e
                  | Inr s3 \<Rightarrow>
                      if inTileBounds env s3 \<and> inAngleBounds s3
                      then Inr (Some seg, s3\<lparr>isArticulated := (placement s3 = CORNER)\<rparr>)
                      else getNextFittingSegment env None s3)
               else getNextFittingSegment env None s2))"
    unfolding start_def by (rule getNextFittingSegment.simps)
  from "1.prems"(1) unf obtain sg s1 where st: "start = Some (sg, s1)"
    by (cases start) auto
  have rel: "sg = getCurrentSegment s1 \<and> not_before s s1 \<and> (segment = None \<longrightarrow> after s s1)"
  proof (cases segment)
    case None
    with st have "getNextSegment s = Some (sg, s1)" by (simp add: start_def)
    from getNextSegment_same[OF this] None show ?thesis
      by (auto simp: after_def not_before_def)
  next
    case (Some a)
    with st "1.prems"(2) show ?thesis by (auto simp: start_def not_before_refl)
  qed
  from "1.prems"(1) unf st obtain fit s2 where f: "doesSegmentFit s1 sg = Inr (fit, s2)"
    by (cases "doesSegmentFit s1 sg") auto
  note d = doesSegmentFit_same[OF f]
  show ?case
  proof (cases fit)
    case True
    from "1.prems"(1) unf st f True obtain s3 where u: "update env s2 = Inr s3"
      by (cases "update env s2") auto
    note us = update_same[OF u]
    show ?thesis
    proof (cases "inTileBounds env s3 \<and> inAngleBounds s3")
      case ok: True
      with "1.prems"(1) unf st f True u have
        "seg = sg" "s' = s3\<lparr>isArticulated := (placement s3 = CORNER)\<rparr>" by auto
      with rel f True u ok have "accepts env s1 seg s'" by (auto simp: accepts_def)
      with rel show ?thesis by blast
    next
      case no: False
      with "1.prems"(1) unf st f True u have
        r: "getNextFittingSegment env None s3 = Inr (Some seg, s')" by auto
      from st have st': "(case segment of None \<Rightarrow> getNextSegment s | Some seg \<Rightarrow> Some (seg, s)) = Some (sg, s1)"
        by (simp add: start_def)
      from "1.IH"(1)[OF st' refl f refl True u no r] obtain t where
        t: "accepts env t seg s'" "after s3 t" by auto
      from d us have "same_inputs s1 s3" "same_cursor s1 s3"
        using same_inputs_trans same_cursor_trans by blast+
      from same_then_after[OF this t(2)] have "after s1 t" .
      with rel have "after s t" using not_before_after by blast
      with t(1) show ?thesis using after_not_before by blast
    qed
  next
    case False
    with "1.prems"(1) unf st f have
      r: "getNextFittingSegment env None s2 = Inr (Some seg, s')" by auto
    from st have st': "(case segment of None \<Rightarrow> getNextSegment s | Some seg \<Rightarrow> Some (seg, s)) = Some (sg, s1)"
      by (simp add: start_def)
    from "1.IH"(2)[OF st' refl f refl False r] obtain t where
      t: "accepts env t seg s'" "after s2 t" by auto
    from d have "same_inputs s1 s2" "same_cursor s1 s2" by auto
    from same_then_after[OF this t(2)] have "after s1 t" .
    with rel have "after s t" using not_before_after by blast
    with t(1) show ?thesis using after_not_before by blast
  qed
qed

section \<open>Lemmas on accepted placements\<close>

lemma accepts_same:
  assumes "accepts env s1 seg s'"
  shows "same_inputs s1 s' \<and> same_cursor s1 s' \<and> seg = getCurrentSegment s'"
proof -
  from assms obtain s2 s3 where
    f: "doesSegmentFit s1 seg = Inr (True, s2)" and u: "update env s2 = Inr s3" and
    e: "s' = s3\<lparr>isArticulated := (placement s3 = CORNER)\<rparr>" and g: "seg = getCurrentSegment s1"
    by (auto simp: accepts_def)
  from doesSegmentFit_same[OF f] update_same[OF u] have
    "same_inputs s1 s3" "same_cursor s1 s3"
    using same_inputs_trans same_cursor_trans by blast+
  with e have "same_inputs s1 s'" "same_cursor s1 s'"
    by (simp_all add: same_inputs_def same_cursor_def)
  with g same_cursor_measures[of s1 s'] show ?thesis by simp
qed

lemma constructed:
  assumes "LabelLine_new env sz ls lay = Inr s'" "\<not> throw_away s'"
  shows "\<exists>s1 seg. accepts env s1 seg s' \<and> not_before (LabelLine_init sz ls lay) s1"
proof -
  let ?s = "LabelLine_init sz ls lay"
  from assms obtain seg where
    "getNextFittingSegment env (Some (getCurrentSegment ?s)) ?s = Inr (Some seg, s')"
    by (auto simp: LabelLine_new_def Let_def split: sum.splits option.splits)
  from search_accepts[OF this] show ?thesis by auto
qed

lemma getCurrentAngle_set:
  assumes "getCurrentAngle s = Inr a"
  shows "a \<noteq> []"
  using assms
  by (cases "placement s")
    (auto simp: getCurrentAngle_def Let_def split: sum.splits if_splits)

lemma updateBBoxes_ok:
  assumes "\<not> let_tdz env" "position s = Some p" "angle s \<noteq> []"
  shows "\<exists>lb. updateBBoxes env s = Inr (s\<lparr>labels := lb\<rparr>)"
  using assms
  by (cases "placement s") (auto simp: updateBBoxes_def Let_def addLabel_def removeLabel_def)

lemma update_ok:
  assumes "\<not> let_tdz env" "getCurrentAngle s = Inr a" "getCurrentPosition s = Inr p"
  shows "\<exists>lb. update env s = Inr (s\<lparr>angle := a, position := Some p, labels := lb\<rparr>)"
proof -
  from assms(3) have "getCurrentPosition (s\<lparr>angle := a\<rparr>) = Inr p"
    by (simp add: getCurrentPosition_def getCurrentSegment_def cong: placement.case_cong)
  with assms(2) have "update env s = updateBBoxes env (s\<lparr>angle := a, position := Some p\<rparr>)"
    by (simp add: update_def Let_def)
  with updateBBoxes_ok[OF assms(1), of "s\<lparr>angle := a, position := Some p\<rparr>" p]
    getCurrentAngle_set[OF assms(2)]
  show ?thesis by auto
qed

lemma inAngleBounds_fields:
  assumes "placement t = placement s" "angle t = angle s"
  shows "inAngleBounds t = inAngleBounds s"
  using assms by (simp add: inAngleBounds_def cong: placement.case_cong)

lemma search_accepts_first:
  assumes "doesSegmentFit s seg = Inr (True, s2)"
    and "\<not> let_tdz env" "getCurrentAngle s2 = Inr a" "getCurrentPosition s2 = Inr p"
    and "\<And>t. inTileBounds env t" "inAngleBounds (s2\<lparr>angle := a\<rparr>)"
  shows "\<exists>lb. getNextFittingSegment env (Some seg) s =
           Inr (Some seg, s2\<lparr>angle := a, position := Some p, labels := lb,
                            isArticulated := (placement s2 = CORNER)\<rparr>)"
proof -
  from update_ok[OF assms(2,3,4)] obtain lb where
    u: "update env s2 = Inr (s2\<lparr>angle := a, position := Some p, labels := lb\<rparr>)" by blast
  have "inAngleBounds (s2\<lparr>angle := a, position := Some p, labels := lb\<rparr>)"
    using assms(6) inAngleBounds_fields[of "s2\<lparr>angle := a, position := Some p, labels := lb\<rparr>" "s2\<lparr>angle := a\<rparr>"]
    by simp
  with assms(1,5) u show ?thesis
    by (subst getNextFittingSegment.simps) auto
qed

lemma pi_le_zero: "(pi \<le> 0) = False"
  using pi_gt_zero by (simp add: not_le)

lemma angle_east:
  assumes "x1 < x2"
  shows "getAngleFromSegment (Some (Fin x1, Fin y)) (Some (Fin x2, Fin y)) = Inr (Fin 0)"
proof -
  from assms have "atan2 (x1 - x2) 0 = - (pi / 2)" by (simp add: atan2_def)
  then show ?thesis
    by (simp add: getAngleFromSegment_def Let_def jsub_def jge_def pi_le_zero)
qed

lemma sqrt_10000: "sqrt 10000 = 100"
  by (rule real_sqrt_unique) simp_all

lemma scenario_a:
  "\<exists>s'. LabelLine_new plain_env (Fin 10, Fin 2) two_points plain_layout = Inr s' \<and>
     \<not> throw_away s' \<and> placement s' = MID_POINT \<and> segment_index s' = 0"
proof -
  let ?s = "LabelLine_init (Fin 10, Fin 2) two_points plain_layout"
  let ?seg = "[Some (Fin 0, Fin 0), Some (Fin 100, Fin 0)]"
  have g: "getCurrentSegment ?s = ?seg"
    by (simp add: getCurrentSegment_def LabelLine_init_def two_points_def plain_layout_def
        js_or_def line_at_def)
  have f: "doesSegmentFit ?s ?seg = Inr (True, ?s)"
    by (simp add: doesSegmentFit_def LabelLine_init_def plain_layout_def seg_at_def jsub_def
        sqrt_10000)
  have pl: "placement ?s = MID_POINT"
    by (simp add: LabelLine_init_def plain_layout_def)
  have a: "getCurrentAngle ?s = Inr [Fin 0]"
    unfolding getCurrentAngle_def g Let_def
    by (simp add: pl seg_at_def angle_east)
  have p: "getCurrentPosition ?s = Inr (Fin 50, Fin 0)"
    unfolding getCurrentPosition_def g Let_def
    by (simp add: pl seg_at_def)
  have b: "inAngleBounds (?s\<lparr>angle := [Fin 0]\<rparr>)"
    by (simp add: inAngleBounds_def pl)
  have "\<not> let_tdz plain_env" "\<And>t. inTileBounds plain_env t" by (simp_all add: plain_env_def)
  from search_accepts_first[OF f this(1) a p this(2) b] obtain lb where
    "getNextFittingSegment plain_env (Some ?seg) ?s =
       Inr (Some ?seg, ?s\<lparr>angle := [Fin 0], position := Some (Fin 50, Fin 0), labels := lb,
                        isArticulated := (placement ?s = CORNER)\<rparr>)" by blast
  then show ?thesis
    by (simp add: LabelLine_new_def g Let_def pl)
      (simp add: LabelLine_init_def plain_layout_def js_or_def)
qed


lemma Vector_sub_Inr:
  assumes "Vector_sub a b = Inr d"
  shows "\<exists>p q. a = Some p \<and> b = Some q \<and> d = (jsub (fst p) (fst q), jsub (snd p) (snd q))"
  using assms by (cases a; cases b) auto

lemma doesSegmentFit_straight:
  assumes "placement s = MID_POINT" "doesSegmentFit s seg = Inr (b, s')"
  shows "\<exists>p0 p1. seg_at seg 0 = Some p0 \<and> seg_at seg 1 = Some p1 \<and>
           b = straight_fits (label_size s) (layout s) p0 p1 \<and> s' = s"
proof -
  from assms obtain d where d: "Vector_sub (seg_at seg 0) (seg_at seg 1) = Inr d"
    by (cases "Vector_sub (seg_at seg 0) (seg_at seg 1)") (auto simp: doesSegmentFit_def)
  from Vector_sub_Inr[OF d] obtain p q where
    pq: "seg_at seg 0 = Some p" "seg_at seg 1 = Some q"
        "d = (jsub (fst p) (fst q), jsub (snd p) (snd q))" by blast
  with assms d show ?thesis
    by (auto simp: doesSegmentFit_def Let_def straight_fits_def)
qed

lemma straight_fits_real:
  assumes "e \<noteq> 100"
  shows "straight_fits (Fin w, h) (lay\<lparr>line_exceed := Fin e, units_per_pixel := Fin u\<rparr>)
           (Fin x0, Fin y0) (Fin x1, Fin y1) =
         (w * u < 100 / (100 - e) * sqrt ((x0 - x1)\<^sup>2 + (y0 - y1)\<^sup>2))"
proof -
  have "\<not> (x0 - x1) * (x0 - x1) + (y0 - y1) * (y0 - y1) < 0"
    by (simp add: not_less)
  with assms show ?thesis
    by (simp add: straight_fits_def jsub_def power2_eq_square)
qed

lemma accepted_straight:
  assumes "LabelLine_new env sz ls lay = Inr s'" "\<not> throw_away s'" "placement s' = MID_POINT"
  shows "\<exists>p0 p1. getCurrentSegment s' = [Some p0, Some p1] \<and> straight_fits sz lay p0 p1"
proof -
  from constructed[OF assms(1,2)] obtain s1 seg where
    a: "accepts env s1 seg s'" and n: "not_before (LabelLine_init sz ls lay) s1" by blast
  from accepts_same[OF a] have
    s: "same_inputs s1 s'" "same_cursor s1 s'" "seg = getCurrentSegment s'" by auto
  with assms(3) have pl: "placement s1 = MID_POINT" by (simp add: same_cursor_def)
  from a obtain s2 where f: "doesSegmentFit s1 seg = Inr (True, s2)"
    by (auto simp: accepts_def)
  from doesSegmentFit_straight[OF pl f] obtain p0 p1 where
    pq: "seg_at seg 0 = Some p0" "seg_at seg 1 = Some p1"
        "straight_fits (label_size s1) (layout s1) p0 p1" by auto
  from n have "label_size s1 = sz" "layout s1 = lay"
    by (simp_all add: not_before_def same_inputs_def LabelLine_init_def)
  with pq(3) have sf: "straight_fits sz lay p0 p1" by simp
  from s(3) assms(3) have "length seg = 2" by (simp add: getCurrentSegment_def)
  with pq(1,2) have "seg = [Some p0, Some p1]"
    by (cases seg; cases "tl seg") (auto simp: seg_at_def)
  with s(3) have "getCurrentSegment s' = [Some p0, Some p1]" by simp
  with sf show ?thesis by blast
qed

section \<open>Lemmas on the corner fit\<close>

lemma kink_search_stop:
  "kink_search ss opp ex n1 n2 (True, k, l1, l2) = (True, k, l1, l2)"
  by (simp add: kink_search.simps)

lemma kink_search_end:
  "k \<le> 0 \<Longrightarrow> kink_search ss opp ex n1 n2 (fit, k, l1, l2) = (fit, k, l1, l2)"
  by (simp add: kink_search.simps)

lemma kink_search_step:
  assumes "0 < k"
  shows "kink_search ss opp ex n1 n2 (False, k, l1, l2) =
     (if jlt (jmul opp (jsub l1 (num_at ss k))) (jmul ex n1) \<and>
         jlt (jmul opp (jadd l2 (num_at ss k))) (jmul ex n2)
      then (True, k, jsub l1 (num_at ss k), jadd l2 (num_at ss k))
      else kink_search ss opp ex n1 n2 (False, k - 1, jsub l1 (num_at ss k), jadd l2 (num_at ss k)))"
  using assms kink_search.simps[of ss opp ex n1 n2 False k l1 l2]
  by (auto simp: Let_def kink_search_stop)

lemma drop_take_Suc:
  assumes "j \<le> n" "n < length rs"
  shows "drop j (take (Suc n) rs) = drop j (take n rs) @ [rs ! n]"
  using assms by (simp add: take_Suc_conv_app_nth)

lemma kink_search_fin:
  assumes "kink_search (map Fin rs) opp ex n1 n2 (False, k, Fin a, Fin b) = (fit, k', l1, l2)"
    and "k < int (length rs)"
  shows "if fit
         then 0 < k' \<and> k' \<le> k \<and>
              l1 = Fin (a - sum_list (drop (nat k') (take (nat k + 1) rs))) \<and>
              l2 = Fin (b + sum_list (drop (nat k') (take (nat k + 1) rs))) \<and>
              jlt (jmul opp l1) (jmul ex n1) \<and> jlt (jmul opp l2) (jmul ex n2)
         else k' \<le> 0"
  using assms
proof (induction "nat k" arbitrary: k a b)
  case 0
  then have "k \<le> 0" by simp
  with "0.prems"(1) show ?case by (simp add: kink_search_end)
next
  case (Suc n)
  then have kp: "0 < k" and kn: "nat (k - 1) = n" "nat k = Suc n" by simp_all
  from Suc.prems(2) kp have w: "num_at (map Fin rs) k = Fin (rs ! nat k)"
    by (simp add: num_at_def)
  let ?r = "rs ! nat k"
  let ?t = "jlt (jmul opp (Fin (a - ?r))) (jmul ex n1) \<and> jlt (jmul opp (Fin (b + ?r))) (jmul ex n2)"
  from Suc.prems(2) kp have one: "drop (nat k) (take (nat k + 1) rs) = [?r]"
    by (simp add: take_Suc_conv_app_nth)
  show ?case
  proof (cases ?t)
    case True
    with Suc.prems(1) kp w have "fit \<and> k' = k \<and> l1 = Fin (a - ?r) \<and> l2 = Fin (b + ?r)"
      by (auto simp: kink_search_step jsub_def)
    with True kp one show ?thesis by simp
  next
    case False
    with Suc.prems(1) kp w have
      r: "kink_search (map Fin rs) opp ex n1 n2 (False, k - 1, Fin (a - ?r), Fin (b + ?r)) =
            (fit, k', l1, l2)"
      by (simp add: kink_search_step jsub_def)
    from Suc.prems(2) have lt: "k - 1 < int (length rs)" by simp
    note ih = Suc.hyps(1)[OF kn(1)[symmetric] r lt]
    show ?thesis
    proof (cases fit)
      case f: False
      with ih show ?thesis by simp
    next
      case f: True
      with ih have k': "0 < k'" "k' \<le> k - 1" by simp_all
      then have "nat k' \<le> n" using kn by linarith
      moreover from Suc.prems(2) kn have "n < length rs" by linarith
      ultimately have d: "drop (nat k') (take (Suc n) rs) = drop (nat k') (take n rs) @ [rs ! n]"
        by (rule drop_take_Suc)
      from kn have e: "nat (k - 1) + 1 = n + 1 - 1 + 1" "nat k + 1 = Suc (Suc n)" by simp_all
      from kn have tk: "take (nat (k - 1) + 1) rs = take (Suc n) rs" by simp
      have tk2: "take (nat k + 1) rs = take (Suc (Suc n)) rs" using kn by simp
      from k' kn Suc.prems(2) have
        d2: "drop (nat k') (take (Suc (Suc n)) rs) = drop (nat k') (take (Suc n) rs) @ [rs ! Suc n]"
        by (intro drop_take_Suc) linarith+
      from ih f k' show ?thesis
        by (auto simp add: tk tk2 d2 kn algebra_simps)
    qed
  qed
qed


lemma collapse_fold_fin:
  assumes "m \<le> length rs"
  shows "foldl (\<lambda>(c0, c1) i. if int i < k then (jadd c0 (map Fin rs ! i), c1)
                              else (c0, jadd c1 (map Fin rs ! i)))
           (Fin a, Fin b) [0..<m] =
         (Fin (a + sum_list (take (min m (nat k)) rs)),
          Fin (b + sum_list (drop (nat k) (take m rs))))"
  using assms
proof (induction m)
  case 0
  show ?case by simp
next
  case (Suc m)
  then have m: "m < length rs" and ih: "foldl (\<lambda>(c0, c1) i. if int i < k then (jadd c0 (map Fin rs ! i), c1)
                              else (c0, jadd c1 (map Fin rs ! i)))
           (Fin a, Fin b) [0..<m] =
         (Fin (a + sum_list (take (min m (nat k)) rs)),
          Fin (b + sum_list (drop (nat k) (take m rs))))" by simp_all
  show ?case
  proof (cases "int m < k")
    case True
    then have "min (Suc m) (nat k) = Suc m" "min m (nat k) = m" by linarith+
    moreover from True have "drop (nat k) (take (Suc m) rs) = []" "drop (nat k) (take m rs) = []"
      by simp_all
    ultimately show ?thesis using True m ih
      by (simp add: take_Suc_conv_app_nth)
  next
    case False
    then have "min (Suc m) (nat k) = nat k" "min m (nat k) = nat k" "nat k \<le> m" by linarith+
    moreover from this m have
      "drop (nat k) (take (Suc m) rs) = drop (nat k) (take m rs) @ [rs ! m]"
      by (intro drop_take_Suc)
    ultimately show ?thesis using False m ih by simp
  qed
qed

lemma collapse_fin:
  "collapse (map Fin rs) k =
     (Fin (sum_list (take (nat k) rs)), Fin (sum_list (drop (nat k) rs)))"
  using collapse_fold_fin[of "length rs" rs k 0 0]
  by (simp add: collapse_def min_def)

lemma fitKinkedSegment_fin:
  assumes "segment_size s = map Fin rs" "label_size s = (Fin w, h)"
    and "fitKinkedSegment s [Some a, Some b, Some c] = Inr (True, s')"
    and "tested_lengths s (jsub (fst a) (fst b), jsub (snd a) (snd b))
           (jsub (fst b) (fst c), jsub (snd b) (snd c)) = (fit, k, l1, l2)"
  shows "fit \<and> 0 < k \<and> k < int (length rs) \<and>
         s' = s\<lparr>kink_index := k,
                collapsed_size := [Fin (sum_list (take (nat k) rs)), Fin (sum_list (drop (nat k) rs))]\<rparr> \<and>
         l1 = Fin (w - sum_list (drop (nat k) rs)) \<and> l2 = Fin (sum_list (drop (nat k) rs)) \<and>
         jlt (jmul (units_per_pixel (layout s)) l1)
           (jmul (jdiv (Fin 100) (jsub (Fin 100) (line_exceed (layout s))))
              (Vector_length (jsub (fst a) (fst b), jsub (snd a) (snd b)))) \<and>
         jlt (jmul (units_per_pixel (layout s)) l2)
           (jmul (jdiv (Fin 100) (jsub (Fin 100) (line_exceed (layout s))))
              (Vector_length (jsub (fst b) (fst c), jsub (snd b) (snd c))))"
proof -
  let ?p0p1 = "(jsub (fst a) (fst b), jsub (snd a) (snd b))"
  let ?p1p2 = "(jsub (fst b) (fst c), jsub (snd b) (snd c))"
  have v: "Vector_sub (seg_at [Some a, Some b, Some c] 0) (seg_at [Some a, Some b, Some c] 1) = Inr ?p0p1"
    "Vector_sub (seg_at [Some a, Some b, Some c] 1) (seg_at [Some a, Some b, Some c] 2) = Inr ?p1p2"
    by (cases a; cases b; cases c; simp add: seg_at_def)+
  from assms(4) have ks: "kink_search (segment_size s) (units_per_pixel (layout s))
           (jdiv (Fin 100) (jsub (Fin 100) (line_exceed (layout s))))
           (Vector_length ?p0p1) (Vector_length ?p1p2)
           (False, int (length (segment_size s)) - 1, fst (label_size s), Fin 0) = (fit, k, l1, l2)"
    by (simp add: tested_lengths_def)
  from fitKinkedSegment_unfold[OF v ks] assms(3) have
    fk: "fit" "0 < k" and s': "s' = s\<lparr>kink_index := k,
                  collapsed_size := [fst (collapse (segment_size s) k),
                                     snd (collapse (segment_size s) k)]\<rparr>"
    by (auto split: if_splits)
  from ks assms(1,2) have ks': "kink_search (map Fin rs) (units_per_pixel (layout s))
           (jdiv (Fin 100) (jsub (Fin 100) (line_exceed (layout s))))
           (Vector_length ?p0p1) (Vector_length ?p1p2)
           (False, int (length rs) - 1, Fin w, Fin 0) = (fit, k, l1, l2)" by simp
  have "int (length rs) - 1 < int (length rs)" by simp
  from kink_search_fin[OF ks' this] fk have
    r: "k \<le> int (length rs) - 1"
       "l1 = Fin (w - sum_list (drop (nat k) (take (nat (int (length rs) - 1) + 1) rs)))"
       "l2 = Fin (0 + sum_list (drop (nat k) (take (nat (int (length rs) - 1) + 1) rs)))"
       "jlt (jmul (units_per_pixel (layout s)) l1)
           (jmul (jdiv (Fin 100) (jsub (Fin 100) (line_exceed (layout s)))) (Vector_length ?p0p1))"
       "jlt (jmul (units_per_pixel (layout s)) l2)
           (jmul (jdiv (Fin 100) (jsub (Fin 100) (line_exceed (layout s)))) (Vector_length ?p1p2))"
    by auto
  from r(1) fk(2) have "length rs \<le> nat (int (length rs) - 1) + 1" by linarith
  then have tk: "take (nat (int (length rs) - 1) + 1) rs = rs" by simp
  from s' assms(1) have "s' = s\<lparr>kink_index := k,
                collapsed_size := [Fin (sum_list (take (nat k) rs)), Fin (sum_list (drop (nat k) rs))]\<rparr>"
    by (simp add: collapse_fin)
  with fk r tk show ?thesis by simp
qed


lemma corner_example_search:
  "tested_lengths (LabelLine_init (Fin 10, Fin 2) three_points corner_layout)
     (jsub (Fin 0) (Fin 100), jsub (Fin 0) (Fin 0)) (jsub (Fin 100) (Fin 200), jsub (Fin 0) (Fin 0)) =
   (True, 1, Fin 5, Fin 5)"
  by (simp add: tested_lengths_def LabelLine_init_def corner_layout_def kink_search_step
      num_at_def jsub_def sqrt_10000)

lemma corner_example_fit:
  "fitKinkedSegment (LabelLine_init (Fin 10, Fin 2) three_points corner_layout)
     [Some (Fin 0, Fin 0), Some (Fin 100, Fin 0), Some (Fin 200, Fin 0)] =
   Inr (True, (LabelLine_init (Fin 10, Fin 2) three_points corner_layout)
               \<lparr>kink_index := 1, collapsed_size := [Fin 5, Fin 5]\<rparr>)"
proof -
  let ?s = "LabelLine_init (Fin 10, Fin 2) three_points corner_layout"
  let ?seg = "[Some (Fin 0, Fin 0), Some (Fin 100, Fin 0), Some (Fin 200, Fin 0)]"
  have v: "Vector_sub (seg_at ?seg 0) (seg_at ?seg 1) = Inr (jsub (Fin 0) (Fin 100), jsub (Fin 0) (Fin 0))"
    "Vector_sub (seg_at ?seg 1) (seg_at ?seg 2) = Inr (jsub (Fin 100) (Fin 200), jsub (Fin 0) (Fin 0))"
    by (simp_all add: seg_at_def)
  have ss: "segment_size ?s = map Fin [5, 5]"
    by (simp add: LabelLine_init_def corner_layout_def)
  have c: "collapse (segment_size ?s) 1 = (Fin 5, Fin 5)"
    unfolding ss collapse_fin by simp
  from corner_example_search have ks: "kink_search (segment_size ?s) (units_per_pixel (layout ?s))
           (jdiv (Fin 100) (jsub (Fin 100) (line_exceed (layout ?s))))
           (Vector_length (jsub (Fin 0) (Fin 100), jsub (Fin 0) (Fin 0)))
           (Vector_length (jsub (Fin 100) (Fin 200), jsub (Fin 0) (Fin 0)))
           (False, int (length (segment_size ?s)) - 1, fst (label_size ?s), Fin 0) =
             (True, 1, Fin 5, Fin 5)"
    by (simp add: tested_lengths_def)
  show ?thesis
    unfolding fitKinkedSegment_unfold[OF v ks] c
    by (simp add: jsub_def jgt_def)
qed

section \<open>Lemmas on corner placements\<close>

lemma fit_rejects_vertical:
  assumes "(x0 - x1) * (x1 - x2) < 0" "0 < (y0 - y1) * (y1 - y2)"
  shows "fitKinkedSegment s [Some (Fin x0, Fin y0), Some (Fin x1, Fin y1), Some (Fin x2, Fin y2)] =
           Inr (False, s)"
  using assms by (simp add: fitKinkedSegment_def seg_at_def jsub_def jgt_def)

lemma corner_attempt_fit:
  assumes "LabelLine_new env sz ls lay = Inr s'" "\<not> throw_away s'" "placement s' = CORNER"
  shows "\<exists>s1 s2. same_inputs (LabelLine_init sz ls lay) s1 \<and> same_inputs s1 s' \<and>
           same_cursor s1 s' \<and> placement s1 = CORNER \<and>
           fitKinkedSegment s1 (getCurrentSegment s') = Inr (True, s2) \<and>
           kink_index s' = kink_index s2 \<and> collapsed_size s' = collapsed_size s2 \<and>
           getCurrentAngle s2 = Inr (angle s') \<and> inAngleBounds s' \<and> isArticulated s'"
proof -
  from constructed[OF assms(1,2)] obtain s1 seg where
    a: "accepts env s1 seg s'" and n: "not_before (LabelLine_init sz ls lay) s1" by blast
  from accepts_same[OF a] have
    s: "same_inputs s1 s'" "same_cursor s1 s'" "seg = getCurrentSegment s'" by auto
  with assms(3) have pl: "placement s1 = CORNER" by (simp add: same_cursor_def)
  from a obtain s2 s3 where f: "doesSegmentFit s1 seg = Inr (True, s2)"
    and u: "update env s2 = Inr s3" and b: "inAngleBounds s3"
    and e: "s' = s3\<lparr>isArticulated := (placement s3 = CORNER)\<rparr>"
    by (auto simp: accepts_def)
  from f pl have fk: "fitKinkedSegment s1 seg = Inr (True, s2)" by (simp add: doesSegmentFit_def)
  from update_state[OF u] obtain an p lb where
    us: "getCurrentAngle s2 = Inr an" "s3 = s2\<lparr>angle := an, position := Some p, labels := lb\<rparr>"
    by blast
  from e us have k: "kink_index s' = kink_index s2" "collapsed_size s' = collapsed_size s2"
    "angle s' = an" by simp_all
  from e b have b': "inAngleBounds s'"
    using inAngleBounds_fields[of s' s3] by simp
  from e assms(3) have "isArticulated s'" by auto
  with n s pl fk k us(1) b' show ?thesis
    by (auto simp: not_before_def)
qed

lemma pi_facts: "(2 * pi \<le> 0) = False" "(0 \<le> pi / 2) = True" "(pi / 2 \<le> 0) = False"
  using pi_gt_zero by (simp_all add: not_le)

lemma corner_example:
  "\<exists>s'. LabelLine_new plain_env (Fin 10, Fin 2) three_points corner_layout = Inr s' \<and>
     \<not> throw_away s' \<and>
     corner_points s' (Fin 0, Fin 0) (Fin 100, Fin 0) (Fin 200, Fin 0) \<and>
     segment_size s' = map Fin [5, 5] \<and>
     kink_index s' = 1 \<and> collapsed_size s' = [Fin 5, Fin 5] \<and> angle s' = [Fin 0, Fin 0]"
proof -
  let ?s = "LabelLine_init (Fin 10, Fin 2) three_points corner_layout"
  let ?seg = "[Some (Fin 0, Fin 0), Some (Fin 100, Fin 0), Some (Fin 200, Fin 0)]"
  let ?s2 = "?s\<lparr>kink_index := 1, collapsed_size := [Fin 5, Fin 5]\<rparr>"
  have pl: "placement ?s = CORNER" "placement ?s2 = CORNER"
    by (simp_all add: LabelLine_init_def corner_layout_def)
  have g: "getCurrentSegment ?s = ?seg" "getCurrentSegment ?s2 = ?seg"
    by (simp_all add: getCurrentSegment_def LabelLine_init_def three_points_def corner_layout_def
        js_or_def line_at_def)
  have f: "doesSegmentFit ?s ?seg = Inr (True, ?s2)"
    using corner_example_fit by (simp add: doesSegmentFit_def pl)
  have a: "getCurrentAngle ?s2 = Inr [Fin 0, Fin 0]"
    unfolding getCurrentAngle_def g Let_def
    by (simp add: pl seg_at_def angle_east jsub_def jge_def)
  have p: "getCurrentPosition ?s2 = Inr (Fin 100, Fin 0)"
    unfolding getCurrentPosition_def g Let_def
    by (simp add: pl seg_at_def)
  have b: "inAngleBounds (?s2\<lparr>angle := [Fin 0, Fin 0]\<rparr>)"
    by (simp add: inAngleBounds_def pl num_at_def lift_angle_def jsub_def jmin_def MAX_ANGLE_def
        pi_facts)
  have "\<not> let_tdz plain_env" "\<And>t. inTileBounds plain_env t" by (simp_all add: plain_env_def)
  from search_accepts_first[OF f this(1) a p this(2) b] obtain lb where
    "getNextFittingSegment plain_env (Some ?seg) ?s =
       Inr (Some ?seg, ?s2\<lparr>angle := [Fin 0, Fin 0], position := Some (Fin 100, Fin 0),
                          labels := lb, isArticulated := (placement ?s2 = CORNER)\<rparr>)" by blast
  then have "LabelLine_new plain_env (Fin 10, Fin 2) three_points corner_layout =
       Inr (?s2\<lparr>angle := [Fin 0, Fin 0], position := Some (Fin 100, Fin 0),
                          labels := lb, isArticulated := True\<rparr>)"
    by (simp add: LabelLine_new_def g Let_def pl)
  moreover have
    "getCurrentSegment (?s2\<lparr>angle := [Fin 0, Fin 0], position := Some (Fin 100, Fin 0),
                          labels := lb, isArticulated := True\<rparr>) = ?seg"
    by (simp add: getCurrentSegment_def LabelLine_init_def three_points_def corner_layout_def
        js_or_def line_at_def)
  ultimately show ?thesis
    by (simp add: corner_points_def) (simp add: LabelLine_init_def corner_layout_def)
qed

lemma sqrt_17: "1 < sqrt 17"
  by (rule real_less_rsqrt) simp

lemma getAngleFromSegment_real:
  "getAngleFromSegment (Some (Fin x1, Fin y1)) (Some (Fin x2, Fin y2)) =
     Inr (if pi / 2 \<le> atan2 (x1 - x2) (y1 - y2) + pi / 2
          then Fin (atan2 (x1 - x2) (y1 - y2) + pi / 2 + pi -
                    2 * pi * of_int (trunc ((atan2 (x1 - x2) (y1 - y2) + pi / 2 + pi) / (2 * pi))))
          else if atan2 (x1 - x2) (y1 - y2) + pi / 2 < 0
          then Fin (atan2 (x1 - x2) (y1 - y2) + pi / 2 + 2 * pi)
          else Fin (atan2 (x1 - x2) (y1 - y2) + pi / 2))"
  by (simp add: getAngleFromSegment_def Let_def jsub_def jge_def)

lemma angle_low:
  assumes "atan2 (x1 - x2) (y1 - y2) = t" "t + pi / 2 < 0"
  shows "getAngleFromSegment (Some (Fin x1, Fin y1)) (Some (Fin x2, Fin y2)) =
           Inr (Fin (t + pi / 2 + 2 * pi))"
proof -
  from assms(2) pi_gt_zero have "\<not> pi / 2 \<le> t + pi / 2" by linarith
  with assms show ?thesis
    unfolding getAngleFromSegment_real by (simp only: if_False if_True)
qed

lemma angle_mid:
  assumes "atan2 (x1 - x2) (y1 - y2) = t" "0 \<le> t + pi / 2" "t + pi / 2 < pi / 2"
  shows "getAngleFromSegment (Some (Fin x1, Fin y1)) (Some (Fin x2, Fin y2)) =
           Inr (Fin (t + pi / 2))"
proof -
  from assms(2,3) have "\<not> pi / 2 \<le> t + pi / 2" "\<not> t + pi / 2 < 0" by linarith+
  with assms show ?thesis
    unfolding getAngleFromSegment_real by (simp only: if_False if_True)
qed

lemma inAngleBounds_fin:
  assumes "placement s = CORNER" "angle s = [Fin a0, Fin a1]" "0 \<le> a0" "0 \<le> a1"
  shows "inAngleBounds s = (min (2 * pi - \<bar>a1 - a0\<bar>) \<bar>a1 - a0\<bar> \<le> pi / 2)"
proof -
  from assms have l: "lift_angle (num_at (angle s) 0) = Fin a0" "lift_angle (num_at (angle s) 1) = Fin a1"
    by (simp_all add: lift_angle_def num_at_def not_less)
  have m: "jmin (Fin x) (Fin y) = Fin (min x y)" for x y
    by (simp add: jmin_def min_def)
  show ?thesis
    unfolding inAngleBounds_def Let_def l
    by (simp add: assms(1) jsub_def m MAX_ANGLE_def)
qed

lemma arctan4: "pi / 4 < arctan 4" "arctan 4 < pi / 2" "0 < arctan 4"
proof -
  have "arctan 1 < arctan 4" by (simp add: arctan_less_iff)
  then show "pi / 4 < arctan 4" by (simp add: arctan_one)
  show "arctan 4 < pi / 2" by (rule arctan_ubound)
  show "0 < arctan 4" by simp
qed

lemma bent_angle1:
  "getAngleFromSegment (Some (Fin 0, Fin 0)) (Some (Fin 4, Fin 1)) =
     Inr (Fin (arctan 4 - pi + pi / 2 + 2 * pi))"
proof -
  have a: "atan2 (0 - 4) (0 - 1) = arctan 4 - pi" by (simp add: atan2_def)
  have "arctan 4 - pi + pi / 2 < 0" using arctan4 by linarith
  from angle_low[OF a this] show ?thesis .
qed

lemma bent_angle2:
  "getAngleFromSegment (Some (Fin 4, Fin 1)) (Some (Fin 8, Fin 0)) =
     Inr (Fin (- arctan 4 + pi / 2))"
proof -
  have a: "atan2 (4 - 8) (1 - 0) = - arctan 4" by (simp add: atan2_def arctan_minus)
  have "0 \<le> - arctan 4 + pi / 2" "- arctan 4 + pi / 2 < pi / 2" using arctan4 by linarith+
  from angle_mid[OF a this] show ?thesis .
qed

lemma bent_bounds:
  assumes "placement s = CORNER"
    "angle s = [Fin (arctan 4 - pi + pi / 2 + 2 * pi), Fin (- arctan 4 + pi / 2)]"
  shows "inAngleBounds s"
proof -
  have 1: "0 \<le> arctan 4 - pi + pi / 2 + 2 * pi" "0 \<le> - arctan 4 + pi / 2"
    using arctan4 by linarith+
  have "\<bar>- arctan 4 + pi / 2 - (arctan 4 - pi + pi / 2 + 2 * pi)\<bar> = pi + 2 * arctan 4"
    using arctan4 by linarith
  moreover have "2 * pi - (pi + 2 * arctan 4) \<le> pi / 2" using arctan4 by linarith
  ultimately have "min (2 * pi - \<bar>- arctan 4 + pi / 2 - (arctan 4 - pi + pi / 2 + 2 * pi)\<bar>)
      \<bar>- arctan 4 + pi / 2 - (arctan 4 - pi + pi / 2 + 2 * pi)\<bar> \<le> pi / 2"
    by (simp only: min.coboundedI1)
  with inAngleBounds_fin[OF assms 1] show ?thesis by (simp only:)
qed


lemma bent_fit:
  "fitKinkedSegment (LabelLine_init (Fin 2, Fin 1) bent_points bent_layout)
       [Some (Fin 0, Fin 0), Some (Fin 4, Fin 1), Some (Fin 8, Fin 0)] =
     Inr (True, (LabelLine_init (Fin 2, Fin 1) bent_points bent_layout)
                 \<lparr>kink_index := 1, collapsed_size := [Fin 1, Fin 1]\<rparr>)"
proof -
  let ?s = "LabelLine_init (Fin 2, Fin 1) bent_points bent_layout"
  let ?seg = "[Some (Fin 0, Fin 0), Some (Fin 4, Fin 1), Some (Fin 8, Fin 0)]"
  have v: "Vector_sub (seg_at ?seg 0) (seg_at ?seg 1) = Inr (Fin (- 4), Fin (- 1))"
    "Vector_sub (seg_at ?seg 1) (seg_at ?seg 2) = Inr (Fin (- 4), Fin 1)"
    by (simp_all add: seg_at_def jsub_def)
  have ss: "segment_size ?s = map Fin [1, 1]"
    by (simp add: LabelLine_init_def bent_layout_def)
  have c: "collapse (segment_size ?s) 1 = (Fin 1, Fin 1)"
    unfolding ss collapse_fin by simp
  have ks: "kink_search (segment_size ?s) (units_per_pixel (layout ?s))
           (jdiv (Fin 100) (jsub (Fin 100) (line_exceed (layout ?s))))
           (Vector_length (Fin (- 4), Fin (- 1))) (Vector_length (Fin (- 4), Fin 1))
           (False, int (length (segment_size ?s)) - 1, fst (label_size ?s), Fin 0) =
             (True, 1, Fin 1, Fin 1)"
    by (simp add: LabelLine_init_def bent_layout_def kink_search_step num_at_def jsub_def sqrt_17)
  show ?thesis
    unfolding fitKinkedSegment_unfold[OF v ks] c
    by (simp add: jgt_def)
qed

lemma bent_example:
  "\<exists>s'. LabelLine_new plain_env (Fin 2, Fin 1) bent_points bent_layout = Inr s' \<and>
     \<not> throw_away s' \<and> isArticulated s' \<and>
     corner_points s' (Fin 0, Fin 0) (Fin 4, Fin 1) (Fin 8, Fin 0)"
proof -
  let ?s = "LabelLine_init (Fin 2, Fin 1) bent_points bent_layout"
  let ?seg = "[Some (Fin 0, Fin 0), Some (Fin 4, Fin 1), Some (Fin 8, Fin 0)]"
  let ?s2 = "?s\<lparr>kink_index := 1, collapsed_size := [Fin 1, Fin 1]\<rparr>"
  let ?an = "[Fin (arctan 4 - pi + pi / 2 + 2 * pi), Fin (- arctan 4 + pi / 2)]"
  have pl: "placement ?s = CORNER" "placement ?s2 = CORNER"
    by (simp_all add: LabelLine_init_def bent_layout_def)
  have g: "getCurrentSegment ?s = ?seg" "getCurrentSegment ?s2 = ?seg"
    by (simp_all add: getCurrentSegment_def LabelLine_init_def bent_points_def bent_layout_def
        js_or_def line_at_def)
  have f: "doesSegmentFit ?s ?seg = Inr (True, ?s2)"
    using bent_fit by (simp add: doesSegmentFit_def pl)
  have a: "getCurrentAngle ?s2 = Inr ?an"
    unfolding getCurrentAngle_def g Let_def
    by (simp add: pl seg_at_def bent_angle1 bent_angle2 jsub_def jge_def)
  have p: "getCurrentPosition ?s2 = Inr (Fin 4, Fin 1)"
    unfolding getCurrentPosition_def g Let_def
    by (simp add: pl seg_at_def)
  have b: "inAngleBounds (?s2\<lparr>angle := ?an\<rparr>)"
    by (rule bent_bounds) (simp_all add: pl)
  have "\<not> let_tdz plain_env" "\<And>t. inTileBounds plain_env t" by (simp_all add: plain_env_def)
  from search_accepts_first[OF f this(1) a p this(2) b] obtain lb where
    "getNextFittingSegment plain_env (Some ?seg) ?s =
       Inr (Some ?seg, ?s2\<lparr>angle := ?an, position := Some (Fin 4, Fin 1),
                          labels := lb, isArticulated := (placement ?s2 = CORNER)\<rparr>)" by blast
  then have "LabelLine_new plain_env (Fin 2, Fin 1) bent_points bent_layout =
       Inr (?s2\<lparr>angle := ?an, position := Some (Fin 4, Fin 1),
                          labels := lb, isArticulated := True\<rparr>)"
    by (simp add: LabelLine_new_def g Let_def pl)
  moreover have
    "getCurrentSegment (?s2\<lparr>angle := ?an, position := Some (Fin 4, Fin 1),
                          labels := lb, isArticulated := True\<rparr>) = ?seg"
    by (simp add: getCurrentSegment_def LabelLine_init_def bent_points_def bent_layout_def
        js_or_def line_at_def)
  ultimately show ?thesis
    by (simp add: corner_points_def) (simp add: LabelLine_init_def bent_layout_def)
qed

section \<open>Lemmas on the excess ratio\<close>









section \<open>Lemmas on accepted corner placements\<close>

lemma kink_search_le:
  "fst (snd (kink_search ss opp ex n1 n2 (fit0, k, l1, l2))) \<le> k"
proof (induction "nat k" arbitrary: k l1 l2 fit0)
  case 0
  then show ?case by (simp add: kink_search_end)
next
  case (Suc n)
  then have kp: "0 < k" and kn: "n = nat (k - 1)" by simp_all
  show ?case
  proof (cases fit0)
    case True
    then show ?thesis by (simp add: kink_search_stop)
  next
    case False
    then have f0: "fit0 = False" by simp
    show ?thesis
    proof (cases "jlt (jmul opp (jsub l1 (num_at ss k))) (jmul ex n1) \<and>
        jlt (jmul opp (jadd l2 (num_at ss k))) (jmul ex n2)")
      case t: True
      show ?thesis unfolding f0 kink_search_step[OF kp] if_P[OF t] by simp
    next
      case f: False
      from Suc.hyps(1)[OF kn, of False "jsub l1 (num_at ss k)" "jadd l2 (num_at ss k)"]
      show ?thesis unfolding f0 kink_search_step[OF kp] if_not_P[OF f] by simp
    qed
  qed
qed

lemma fitKinkedSegment_true:
  assumes "fitKinkedSegment s seg = Inr (True, s')"
  shows "\<exists>k. 0 < k \<and> k < int (length (segment_size s)) \<and>
           s' = s\<lparr>kink_index := k,
                  collapsed_size := [fst (collapse (segment_size s) k),
                                     snd (collapse (segment_size s) k)]\<rparr>"
proof -
  from assms obtain p0p1 where p0: "Vector_sub (seg_at seg 0) (seg_at seg 1) = Inr p0p1"
    by (cases "Vector_sub (seg_at seg 0) (seg_at seg 1)") (auto simp: fitKinkedSegment_def)
  from assms p0 obtain p1p2 where p1: "Vector_sub (seg_at seg 1) (seg_at seg 2) = Inr p1p2"
    by (cases "Vector_sub (seg_at seg 1) (seg_at seg 2)") (auto simp: fitKinkedSegment_def)
  obtain fit k l1 l2 where
    ks: "kink_search (segment_size s) (units_per_pixel (layout s))
           (jdiv (Fin 100) (jsub (Fin 100) (line_exceed (layout s))))
           (Vector_length p0p1) (Vector_length p1p2)
           (False, int (length (segment_size s)) - 1, fst (label_size s), Fin 0) = (fit, k, l1, l2)"
    using prod_cases4 by blast
  from kink_search_le[of "segment_size s" "units_per_pixel (layout s)"
      "jdiv (Fin 100) (jsub (Fin 100) (line_exceed (layout s)))"
      "Vector_length p0p1" "Vector_length p1p2" False "int (length (segment_size s)) - 1"
      "fst (label_size s)" "Fin 0"] ks
  have le: "k \<le> int (length (segment_size s)) - 1" by simp
  from fitKinkedSegment_unfold[OF p0 p1 ks] assms have
    "0 < k" "s' = s\<lparr>kink_index := k,
                  collapsed_size := [fst (collapse (segment_size s) k),
                                     snd (collapse (segment_size s) k)]\<rparr>"
    by (auto split: if_splits)
  with le show ?thesis by auto
qed

lemma sum_list_pos:
  fixes xs :: "real list"
  assumes "xs \<noteq> []" "list_all (\<lambda>x. 0 < x) xs"
  shows "0 < sum_list xs"
  using assms
proof (induction xs)
  case Nil
  then show ?case by simp
next
  case (Cons x xs)
  then show ?case by (cases xs) (auto intro: add_pos_pos)
qed

lemma jatan2_range:
  "jatan2 y x = NaN \<or> (\<exists>t. jatan2 y x = Fin t \<and> - pi \<le> t \<and> t \<le> pi)"
proof -
  have p: "0 < pi" by simp
  have b: "- pi \<le> atan2 a b \<and> atan2 a b \<le> pi" for a b
    using atan2_bounds[of a b] by simp
  from p have q: "- pi \<le> pi / 2" "pi / 2 \<le> pi" "- pi \<le> - (pi / 2)" "- (pi / 2) \<le> pi"
    "- pi \<le> pi / 4" "pi / 4 \<le> pi" "- pi \<le> 3 * pi / 4" "3 * pi / 4 \<le> pi"
    "- pi \<le> - (pi / 4)" "- (pi / 4) \<le> pi" "- pi \<le> - (3 * pi / 4)" "- (3 * pi / 4) \<le> pi"
    "- pi \<le> 0" "0 \<le> pi" "- pi \<le> pi"
    by linarith+
  show ?thesis
    by (cases y; cases x) (simp_all only: jatan2.simps jsnum.simps simp_thms b q ex_simps
        split: if_splits, (use q in auto)?)
qed


lemma getAngleFromSegment_range:
  assumes "getAngleFromSegment p q = Inr a"
  shows "angle_ok a"
proof -
  from assms obtain d where d: "Vector_sub p q = Inr d"
    by (cases "Vector_sub p q") (auto simp: getAngleFromSegment_def)
  have pp: "0 < pi" by simp
  from jatan2_range[of "fst d" "snd d"] show ?thesis
  proof
    assume "jatan2 (fst d) (snd d) = NaN"
    with assms d have "a = NaN"
      by (simp add: getAngleFromSegment_def Let_def jge_def)
    then show ?thesis by (simp add: angle_ok_def)
  next
    assume "\<exists>t. jatan2 (fst d) (snd d) = Fin t \<and> - pi \<le> t \<and> t \<le> pi"
    then obtain t where t: "jatan2 (fst d) (snd d) = Fin t" "- pi \<le> t" "t \<le> pi" by blast
    define th where "th = t + pi / 2"
    show ?thesis
    proof (cases "pi / 2 \<le> th")
      case True
      with assms d t(1) have
        g: "a = Fin (th + pi - 2 * pi * of_int (trunc ((th + pi) / (2 * pi))))"
        by (simp add: getAngleFromSegment_def Let_def jge_def th_def)
      from True pp have "0 \<le> th + pi" by linarith
      from mod_range[OF this, of "2 * pi"] pp have
        "0 \<le> th + pi - 2 * pi * of_int (trunc ((th + pi) / (2 * pi))) \<and>
         th + pi - 2 * pi * of_int (trunc ((th + pi) / (2 * pi))) < 2 * pi" by simp
      then show ?thesis unfolding g angle_ok_def by simp
    next
      case False
      show ?thesis
      proof (cases "th < 0")
        case True
        with assms d t(1) False have g: "a = Fin (th + 2 * pi)"
          by (simp add: getAngleFromSegment_def Let_def jge_def th_def)
        from t(2) have "- (pi / 2) \<le> th" by (simp add: th_def)
        with True pp have "0 \<le> th + 2 * pi \<and> th + 2 * pi < 2 * pi" by linarith
        then show ?thesis unfolding g angle_ok_def by simp
      next
        case nn: False
        with assms d t(1) False have g: "a = Fin th"
          by (simp add: getAngleFromSegment_def Let_def jge_def th_def)
        from nn False pp have "0 \<le> th \<and> th < 2 * pi" by linarith
        then show ?thesis unfolding g angle_ok_def by simp
      qed
    qed
  qed
qed

lemma NaN_absorbs:
  "jadd a NaN = NaN" "jadd NaN a = NaN" "jsub a NaN = NaN" "jsub NaN a = NaN"
  "jmin a NaN = NaN" "jmin NaN a = NaN" "lift_angle NaN = NaN"
  by (cases a; simp add: jsub_def jmin_def lift_angle_def)+

lemma getCurrentAngle_corner:
  assumes "placement s = CORNER" "getCurrentAngle s = Inr an"
  shows "\<exists>a0 a1. an = [a0, a1] \<and> angle_ok a0 \<and> angle_ok a1"
proof -
  let ?seg = "getCurrentSegment s"
  from assms obtain th1 where
    1: "getAngleFromSegment (seg_at ?seg 0) (seg_at ?seg 1) = Inr th1"
    by (cases "getAngleFromSegment (seg_at ?seg 0) (seg_at ?seg 1)")
      (auto simp: getCurrentAngle_def Let_def)
  from assms 1 obtain th2 where
    2: "getAngleFromSegment (seg_at ?seg 1) (seg_at ?seg 2) = Inr th2"
    by (cases "getAngleFromSegment (seg_at ?seg 1) (seg_at ?seg 2)")
      (auto simp: getCurrentAngle_def Let_def)
  from assms 1 2 have "an = [th2, th1] \<or> an = [th1, th2]"
    by (auto simp: getCurrentAngle_def Let_def split: sum.splits if_splits)
  with getAngleFromSegment_range[OF 1] getAngleFromSegment_range[OF 2] show ?thesis by auto
qed

lemma inAngleBounds_corner:
  assumes "placement s = CORNER" "inAngleBounds s" "angle s = [a0, a1]"
    "angle_ok a0" "angle_ok a1"
  shows "\<exists>t0 t1. a0 = Fin t0 \<and> a1 = Fin t1 \<and> 0 \<le> t0 \<and> t0 < 2 * pi \<and> 0 \<le> t1 \<and> t1 < 2 * pi \<and>
           min (2 * pi - \<bar>t1 - t0\<bar>) \<bar>t1 - t0\<bar> \<le> pi / 2"
proof (cases a0)
  case f0: (Fin t0)
  show ?thesis
  proof (cases a1)
    case f1: (Fin t1)
    from assms(4,5) f0 f1 have r: "0 \<le> t0" "t0 < 2 * pi" "0 \<le> t1" "t1 < 2 * pi"
      by (simp_all add: angle_ok_def)
    from assms(3) f0 f1 have "angle s = [Fin t0, Fin t1]" by simp
    from inAngleBounds_fin[OF assms(1) this r(1) r(3)] assms(2) f0 f1 r show ?thesis by simp
  next
    case NaN
    with assms(1,2,3) show ?thesis
      by (simp add: inAngleBounds_def num_at_def NaN_absorbs Let_def)
  qed (use assms(5) in \<open>simp_all add: angle_ok_def\<close>)
next
  case NaN
  with assms(1,2,3) show ?thesis
    by (simp add: inAngleBounds_def num_at_def NaN_absorbs Let_def)
qed (use assms(4) in \<open>simp_all add: angle_ok_def\<close>)


lemma three_points_corner:
  assumes "layout_placement lay = Some CORNER" "layout_segment_index lay = Some 1"
    and "fitKinkedSegment (LabelLine_init sz three_points lay)
           [Some (Fin 0, Fin 0), Some (Fin 100, Fin 0), Some (Fin 200, Fin 0)] = Inr (True, s2)"
  shows "\<exists>lb. LabelLine_new plain_env sz three_points lay =
           Inr (s2\<lparr>angle := [Fin 0, Fin 0], position := Some (Fin 100, Fin 0), labels := lb,
                    isArticulated := True\<rparr>)"
proof -
  let ?s = "LabelLine_init sz three_points lay"
  let ?seg = "[Some (Fin 0, Fin 0), Some (Fin 100, Fin 0), Some (Fin 200, Fin 0)]"
  from assms(1) have pl: "placement ?s = CORNER" by (simp add: LabelLine_init_def)
  from assms(1,2) have g: "getCurrentSegment ?s = ?seg"
    by (simp add: getCurrentSegment_def LabelLine_init_def three_points_def js_or_def line_at_def)
  from fitKinkedSegment_state[OF assms(3)] have
    same: "placement s2 = placement ?s" "lines s2 = lines ?s" "segment_index s2 = segment_index ?s"
    by auto
  with pl have pl2: "placement s2 = CORNER" by simp
  from same g pl have g2: "getCurrentSegment s2 = ?seg"
    by (simp add: getCurrentSegment_def)
  from assms(3) pl have f: "doesSegmentFit ?s ?seg = Inr (True, s2)"
    by (simp add: doesSegmentFit_def)
  have a: "getCurrentAngle s2 = Inr [Fin 0, Fin 0]"
    unfolding getCurrentAngle_def g2 Let_def
    by (simp add: pl2 seg_at_def angle_east jsub_def jge_def)
  have p: "getCurrentPosition s2 = Inr (Fin 100, Fin 0)"
    unfolding getCurrentPosition_def g2 Let_def
    by (simp add: pl2 seg_at_def)
  have b: "inAngleBounds (s2\<lparr>angle := [Fin 0, Fin 0]\<rparr>)"
    by (simp add: inAngleBounds_def pl2 num_at_def lift_angle_def jsub_def jmin_def MAX_ANGLE_def
        pi_facts)
  have "\<not> let_tdz plain_env" "\<And>t. inTileBounds plain_env t" by (simp_all add: plain_env_def)
  from search_accepts_first[OF f this(1) a p this(2) b] obtain lb where
    "getNextFittingSegment plain_env (Some ?seg) ?s =
       Inr (Some ?seg, s2\<lparr>angle := [Fin 0, Fin 0], position := Some (Fin 100, Fin 0),
                          labels := lb, isArticulated := (placement s2 = CORNER)\<rparr>)" by blast
  then have "LabelLine_new plain_env sz three_points lay =
       Inr (s2\<lparr>angle := [Fin 0, Fin 0], position := Some (Fin 100, Fin 0),
                          labels := lb, isArticulated := True\<rparr>)"
    by (simp add: LabelLine_new_def g Let_def pl2)
  then show ?thesis by blast
qed

lemma zero_piece_fit:
  "fitKinkedSegment (LabelLine_init (Fin 10, Fin 2) three_points zero_piece_layout)
     [Some (Fin 0, Fin 0), Some (Fin 100, Fin 0), Some (Fin 200, Fin 0)] =
   Inr (True, (LabelLine_init (Fin 10, Fin 2) three_points zero_piece_layout)
               \<lparr>kink_index := 1, collapsed_size := [Fin 0, Fin 10]\<rparr>)"
proof -
  let ?s = "LabelLine_init (Fin 10, Fin 2) three_points zero_piece_layout"
  let ?seg = "[Some (Fin 0, Fin 0), Some (Fin 100, Fin 0), Some (Fin 200, Fin 0)]"
  have v: "Vector_sub (seg_at ?seg 0) (seg_at ?seg 1) = Inr (Fin (- 100), Fin 0)"
    "Vector_sub (seg_at ?seg 1) (seg_at ?seg 2) = Inr (Fin (- 100), Fin 0)"
    by (simp_all add: seg_at_def jsub_def)
  have ss: "segment_size ?s = map Fin [0, 10]"
    by (simp add: LabelLine_init_def zero_piece_layout_def corner_layout_def)
  have c: "collapse (segment_size ?s) 1 = (Fin 0, Fin 10)"
    unfolding ss collapse_fin by simp
  have ks: "kink_search (segment_size ?s) (units_per_pixel (layout ?s))
           (jdiv (Fin 100) (jsub (Fin 100) (line_exceed (layout ?s))))
           (Vector_length (Fin (- 100), Fin 0)) (Vector_length (Fin (- 100), Fin 0))
           (False, int (length (segment_size ?s)) - 1, fst (label_size ?s), Fin 0) =
             (True, 1, Fin 0, Fin 10)"
    by (simp add: LabelLine_init_def zero_piece_layout_def corner_layout_def kink_search_step
        num_at_def jsub_def sqrt_10000)
  show ?thesis
    unfolding fitKinkedSegment_unfold[OF v ks] c
    by (simp add: jgt_def)
qed

lemma sum_list_of_int:
  "sum_list (map of_int ns) = (of_int (sum_list ns) :: real)"
  by (induction ns) simp_all

lemma collapse_int:
  "collapse (map (\<lambda>n. Fin (of_int n)) ns) k =
     (Fin (of_int (sum_list (take (nat k) ns))), Fin (of_int (sum_list (drop (nat k) ns))))"
proof -
  have "map (\<lambda>n. Fin (of_int n)) ns = map Fin (map of_int ns)" by simp
  then show ?thesis
    unfolding collapse_fin[of "map of_int ns" k, symmetric]
    by (simp only: collapse_fin take_map drop_map sum_list_of_int)
qed

lemma collapse_pos:
  assumes "list_all (\<lambda>r. 0 < r) rs" "0 < k" "k < int (length rs)"
  shows "jlt (Fin 0) (fst (collapse (map Fin rs) k)) \<and> jlt (Fin 0) (snd (collapse (map Fin rs) k))"
proof -
  from assms(2,3) have "take (nat k) rs \<noteq> []" "drop (nat k) rs \<noteq> []" by auto
  moreover from assms(1) have "list_all (\<lambda>r. 0 < r) (take (nat k) rs)"
    "list_all (\<lambda>r. 0 < r) (drop (nat k) rs)"
    by (auto simp: list_all_iff dest: in_set_takeD in_set_dropD)
  ultimately have "0 < sum_list (take (nat k) rs)" "0 < sum_list (drop (nat k) rs)"
    using sum_list_pos by blast+
  then show ?thesis by (simp add: collapse_fin)
qed

lemma update_angle_set:
  assumes "update env s = Inr s'"
  shows "angle s' \<noteq> []"
proof -
  from assms obtain a p where a: "getCurrentAngle s = Inr a"
    and u: "updateBBoxes env (s\<lparr>angle := a, position := Some p\<rparr>) = Inr s'"
    by (auto simp: update_def Let_def split: sum.splits)
  from updateBBoxes_state[OF u] getCurrentAngle_set[OF a] show ?thesis by auto
qed

section \<open>Lemmas on cursors that lie on the line\<close>

lemma line_at_Some: "(\<exists>p. line_at ps i = Some p) = (0 \<le> i \<and> i < int (length ps))"
  by (simp add: line_at_def)

lemma on_line_straight:
  assumes "placement s = MID_POINT"
  shows "on_line s = (\<exists>p0 p1. getCurrentSegment s = [Some p0, Some p1])"
  using assms line_at_Some[of "lines s" "segment_index s"]
    line_at_Some[of "lines s" "segment_index s + 1"]
  by (auto simp: on_line_def getCurrentSegment_def)

lemma on_line_corner:
  assumes "placement s = CORNER"
  shows "on_line s = (\<exists>p0 p1 p2. getCurrentSegment s = [Some p0, Some p1, Some p2])"
  using assms line_at_Some[of "lines s" "segment_index s"]
    line_at_Some[of "lines s" "segment_index s + 1"]
    line_at_Some[of "lines s" "segment_index s - 1"]
  by (auto simp: on_line_def getCurrentSegment_def)

lemma fitKinkedSegment_ok:
  "\<exists>b s'. fitKinkedSegment s [Some p0, Some p1, Some p2] = Inr (b, s')"
proof -
  let ?seg = "[Some p0, Some p1, Some p2]"
  obtain d0 d1 where v: "Vector_sub (seg_at ?seg 0) (seg_at ?seg 1) = Inr d0"
    "Vector_sub (seg_at ?seg 1) (seg_at ?seg 2) = Inr d1"
    by (cases p0; cases p1; cases p2) (simp add: seg_at_def)
  obtain fit k l1 l2 where ks: "kink_search (segment_size s) (units_per_pixel (layout s))
           (jdiv (Fin 100) (jsub (Fin 100) (line_exceed (layout s))))
           (Vector_length d0) (Vector_length d1)
           (False, int (length (segment_size s)) - 1, fst (label_size s), Fin 0) = (fit, k, l1, l2)"
    using prod_cases4 by blast
  show ?thesis unfolding fitKinkedSegment_unfold[OF v ks] by (auto split: if_splits)
qed

lemma doesSegmentFit_ok:
  assumes "on_line s"
  shows "\<exists>b s'. doesSegmentFit s (getCurrentSegment s) = Inr (b, s')"
proof (cases "placement s")
  case MID_POINT
  with assms on_line_straight obtain p0 p1 where "getCurrentSegment s = [Some p0, Some p1]"
    by blast
  with MID_POINT show ?thesis
    by (cases p0; cases p1) (simp add: doesSegmentFit_def seg_at_def Let_def)
next
  case CORNER
  with assms on_line_corner obtain p0 p1 p2 where
    "getCurrentSegment s = [Some p0, Some p1, Some p2]" by blast
  with CORNER fitKinkedSegment_ok[of s p0 p1 p2] show ?thesis
    by (simp add: doesSegmentFit_def)
qed

lemma doesSegmentFit_on_line:
  assumes "doesSegmentFit s (getCurrentSegment s) = Inr r"
  shows "on_line s"
proof (cases "placement s")
  case MID_POINT
  with assms obtain d where
    "Vector_sub (seg_at (getCurrentSegment s) 0) (seg_at (getCurrentSegment s) 1) = Inr d"
    by (cases "Vector_sub (seg_at (getCurrentSegment s) 0) (seg_at (getCurrentSegment s) 1)")
      (auto simp: doesSegmentFit_def)
  from Vector_sub_Inr[OF this] MID_POINT show ?thesis
    unfolding on_line_straight[OF MID_POINT]
    by (auto simp: getCurrentSegment_def seg_at_def)
next
  case CORNER
  let ?seg = "getCurrentSegment s"
  from assms CORNER have f: "fitKinkedSegment s ?seg = Inr r" by (simp add: doesSegmentFit_def)
  then obtain d0 where d0: "Vector_sub (seg_at ?seg 0) (seg_at ?seg 1) = Inr d0"
    by (cases "Vector_sub (seg_at ?seg 0) (seg_at ?seg 1)") (auto simp: fitKinkedSegment_def)
  with f obtain d1 where d1: "Vector_sub (seg_at ?seg 1) (seg_at ?seg 2) = Inr d1"
    by (cases "Vector_sub (seg_at ?seg 1) (seg_at ?seg 2)") (auto simp: fitKinkedSegment_def)
  from Vector_sub_Inr[OF d0] Vector_sub_Inr[OF d1] CORNER show ?thesis
    unfolding on_line_corner[OF CORNER]
    by (auto simp: getCurrentSegment_def seg_at_def)
qed

lemma getAngleFromSegment_ok: "\<exists>a. getAngleFromSegment (Some p) (Some q) = Inr a"
  by (cases p; cases q) (simp add: getAngleFromSegment_def Let_def)

lemma getCurrentAngle_ok:
  assumes "on_line s"
  shows "\<exists>a. getCurrentAngle s = Inr a"
proof (cases "placement s")
  case MID_POINT
  with assms on_line_straight obtain p0 p1 where g: "getCurrentSegment s = [Some p0, Some p1]"
    by blast
  from getAngleFromSegment_ok[of p0 p1] obtain a where
    "getAngleFromSegment (Some p0) (Some p1) = Inr a" by blast
  with MID_POINT g show ?thesis by (simp add: getCurrentAngle_def seg_at_def)
next
  case CORNER
  with assms on_line_corner obtain p0 p1 p2 where
    g: "getCurrentSegment s = [Some p0, Some p1, Some p2]" by blast
  from getAngleFromSegment_ok[of p0 p1] getAngleFromSegment_ok[of p1 p2] obtain a b where
    "getAngleFromSegment (Some p0) (Some p1) = Inr a"
    "getAngleFromSegment (Some p1) (Some p2) = Inr b" by blast
  with CORNER g show ?thesis
    by (cases p0; cases p1; cases p2) (simp add: getCurrentAngle_def seg_at_def)
qed

lemma getCurrentPosition_ok:
  assumes "on_line s"
  shows "\<exists>p. getCurrentPosition s = Inr p"
proof (cases "placement s")
  case MID_POINT
  with assms on_line_straight obtain p0 p1 where g: "getCurrentSegment s = [Some p0, Some p1]"
    by blast
  with MID_POINT show ?thesis by (simp add: getCurrentPosition_def seg_at_def)
next
  case CORNER
  with assms on_line_corner obtain p0 p1 p2 where
    g: "getCurrentSegment s = [Some p0, Some p1, Some p2]" by blast
  with CORNER show ?thesis by (simp add: getCurrentPosition_def seg_at_def)
qed

lemma on_line_same:
  assumes "same_inputs a b" "same_cursor a b"
  shows "on_line a = on_line b"
  using assms
  by (simp add: on_line_def same_inputs_def same_cursor_def cong: placement.case_cong)

lemma getNextSegment_on_line:
  assumes "on_line s" "getNextSegment s = Some (seg, s')"
  shows "on_line s'"
  using assms
  by (auto simp: getNextSegment_def on_line_def Let_def split: placement.splits if_splits)

lemma update_on_line_ok:
  assumes "on_line s" "\<not> let_tdz env"
  shows "\<exists>s'. update env s = Inr s'"
proof -
  from getCurrentAngle_ok[OF assms(1)] getCurrentPosition_ok[OF assms(1)] obtain a p where
    "getCurrentAngle s = Inr a" "getCurrentPosition s = Inr p" by blast
  from update_ok[OF assms(2) this] show ?thesis by blast
qed

lemma search_ok:
  assumes "\<not> let_tdz env" "on_line s"
    and "segment = None \<or> segment = Some (getCurrentSegment s)"
  shows "\<exists>r. getNextFittingSegment env segment s = Inr r"
  using assms
proof (induction env segment s rule: getNextFittingSegment.induct)
  case (1 env segment s)
  define start where
    "start = (case segment of Some seg \<Rightarrow> Some (seg, s) | None \<Rightarrow> getNextSegment s)"
  have unf: "getNextFittingSegment env segment s =
      (case start of
        None \<Rightarrow> Inr (None, s)
      | Some (seg, s1) \<Rightarrow>
          (case doesSegmentFit s1 seg of
             Inl e \<Rightarrow> Inl e
           | Inr (fit, s2) \<Rightarrow>
               if fit then
                 (case update env s2 of
                    Inl e \<Rightarrow> Inl e
                  | Inr s3 \<Rightarrow>
                      if inTileBounds env s3 \<and> inAngleBounds s3
                      then Inr (Some seg, s3\<lparr>isArticulated := (placement s3 = CORNER)\<rparr>)
                      else getNextFittingSegment env None s3)
               else getNextFittingSegment env None s2))"
    unfolding start_def by (rule getNextFittingSegment.simps)
  show ?case
  proof (cases start)
    case None
    with unf show ?thesis by simp
  next
    case (Some a)
    then obtain sg s1 where st: "start = Some (sg, s1)" by (cases a) auto
    have rel: "sg = getCurrentSegment s1 \<and> on_line s1"
    proof (cases segment)
      case None
      with st have n: "getNextSegment s = Some (sg, s1)" by (simp add: start_def)
      from getNextSegment_same[OF n] getNextSegment_on_line[OF "1.prems"(2) n] show ?thesis
        by simp
    next
      case (Some b)
      with st "1.prems"(2,3) show ?thesis by (auto simp: start_def)
    qed
    from doesSegmentFit_ok[of s1] rel obtain fit s2 where
      f: "doesSegmentFit s1 sg = Inr (fit, s2)" by auto
    from doesSegmentFit_same[OF f] rel have o2: "on_line s2" using on_line_same by blast
    from st have st': "(case segment of None \<Rightarrow> getNextSegment s | Some seg \<Rightarrow> Some (seg, s)) = Some (sg, s1)"
      by (simp add: start_def)
    show ?thesis
    proof (cases fit)
      case True
      from update_on_line_ok[OF o2 "1.prems"(1)] obtain s3 where u: "update env s2 = Inr s3"
        by blast
      from update_same[OF u] o2 have o3: "on_line s3" using on_line_same by blast
      show ?thesis
      proof (cases "inTileBounds env s3 \<and> inAngleBounds s3")
        case ok: True
        with unf st f True u show ?thesis by simp
      next
        case no: False
        from "1.IH"(1)[OF st' refl f refl True u no "1.prems"(1) o3] obtain r where
          "getNextFittingSegment env None s3 = Inr r" by auto
        with unf st f True u no show ?thesis by simp
      qed
    next
      case False
      from "1.IH"(2)[OF st' refl f refl False "1.prems"(1) o2] obtain r where
        "getNextFittingSegment env None s2 = Inr r" by auto
      with unf st f False show ?thesis by simp
    qed
  qed
qed

lemma LabelLine_new_ok:
  assumes "\<not> let_tdz env" "on_line (LabelLine_init sz ls lay)"
  shows "\<exists>s. LabelLine_new env sz ls lay = Inr s"
proof -
  from search_ok[OF assms, of "Some (getCurrentSegment (LabelLine_init sz ls lay))"]
  obtain r where
    "getNextFittingSegment env (Some (getCurrentSegment (LabelLine_init sz ls lay)))
       (LabelLine_init sz ls lay) = Inr r" by auto
  then show ?thesis
    by (cases r; cases "fst r") (auto simp: LabelLine_new_def Let_def)
qed

section \<open>The chain of advances\<close>

lemma on_line_bounds:
  assumes "on_line s"
  shows "4 \<le> cursor_left s" "cursor_left s \<le> 2 * length (lines s)"
    "2 \<le> straight_left s" "straight_left s \<le> length (lines s)"
  using assms
  by (cases "placement s"; simp add: on_line_def cursor_left_def straight_left_def; linarith)+

lemma update_needs_no_tdz:
  assumes "update env s = Inr s'"
  shows "\<not> let_tdz env"
proof
  assume "let_tdz env"
  then have r: "\<exists>e. updateBBoxes env t = Inl e" for t
    by (cases "placement t") (simp_all add: updateBBoxes_def Let_def)
  from assms obtain a p where
    "updateBBoxes env (s\<lparr>angle := a, position := Some p\<rparr>) = Inr s'"
    by (auto simp: update_def Let_def split: sum.splits)
  with r[of "s\<lparr>angle := a, position := Some p\<rparr>"] show False by auto
qed

lemma constructed_on_line:
  assumes "LabelLine_new env sz ls lay = Inr s'" "\<not> throw_away s'"
  shows "on_line s'" "same_inputs (LabelLine_init sz ls lay) s'" "\<not> let_tdz env"
    "cursor_left s' \<le> cursor_left (LabelLine_init sz ls lay)"
    "corners_arise (LabelLine_init sz ls lay) \<or>
       straight_left s' \<le> straight_left (LabelLine_init sz ls lay)"
proof -
  from constructed[OF assms] obtain s1 seg where
    a: "accepts env s1 seg s'" and n: "not_before (LabelLine_init sz ls lay) s1" by blast
  from accepts_same[OF a] have s: "same_inputs s1 s'" "same_cursor s1 s'" by auto
  from a obtain s2 s3 where f: "doesSegmentFit s1 (getCurrentSegment s1) = Inr (True, s2)"
    and u: "update env s2 = Inr s3" by (auto simp: accepts_def)
  from doesSegmentFit_on_line[OF f] on_line_same[OF s] show "on_line s'" by simp
  from n s(1) show "same_inputs (LabelLine_init sz ls lay) s'"
    using same_inputs_trans by (auto simp: not_before_def)
  from update_needs_no_tdz[OF u] show "\<not> let_tdz env" .
  from n same_cursor_measures[OF s] show
    "cursor_left s' \<le> cursor_left (LabelLine_init sz ls lay)"
    "corners_arise (LabelLine_init sz ls lay) \<or>
       straight_left s' \<le> straight_left (LabelLine_init sz ls lay)"
    by (auto simp: not_before_def)
qed

lemma init_fields:
  "lines (LabelLine_init sz ls lay) = ls" "layout (LabelLine_init sz ls lay) = lay"
  "label_size (LabelLine_init sz ls lay) = sz"
  "corners_arise (LabelLine_init sz ls lay) = layout_corners lay"
  "placement (LabelLine_init sz ls lay) =
     (case layout_placement lay of None \<Rightarrow> MID_POINT | Some p \<Rightarrow> p)"
  "segment_index (LabelLine_init sz ls lay) =
     js_or (layout_segment_index lay) (js_or (layout_segment_start lay) 0)"
  by (simp_all add: LabelLine_init_def corners_arise_def layout_corners_def)

lemma constructed_coherent:
  assumes "LabelLine_new env sz ls lay = Inr s'" "\<not> throw_away s'"
  shows "coherent s'" "lines s' = ls" "layout s' = lay" "label_size s' = sz"
proof -
  from constructed_on_line(2)[OF assms] have i: "same_inputs (LabelLine_init sz ls lay) s'" .
  then show "lines s' = ls" "layout s' = lay" "label_size s' = sz"
    by (simp_all add: same_inputs_def init_fields)
  from i have "corners_arise s' = corners_arise (LabelLine_init sz ls lay)"
    by (simp add: same_inputs_def corners_arise_def)
  with i show "coherent s'"
    by (simp add: coherent_def init_fields same_inputs_def)
qed

lemma nextLabel_Some:
  assumes "nextLabel env label = Inr (Some n)"
  shows "\<exists>seg l1. getNextSegment label = Some (seg, l1) \<and>
           LabelLine_new env (label_size l1) (lines l1)
             ((layout l1)\<lparr>layout_segment_index := Some (segment_index l1),
                          layout_placement := Some (placement l1)\<rparr>) = Inr n \<and>
           \<not> throw_away n"
  using assms
  by (auto simp: nextLabel_def Let_def split: option.splits sum.splits if_splits)

lemma nextLabel_progress:
  assumes "nextLabel env label = Inr (Some n)"
  shows "cursor_left n < cursor_left label" "on_line n" "lines n = lines label" "coherent n"
    "layout_corners (layout n) = layout_corners (layout label)"
    "corners_arise label \<or> layout_corners (layout label) \<or> straight_left n < straight_left label"
proof -
  from nextLabel_Some[OF assms] obtain seg l1 where
    g: "getNextSegment label = Some (seg, l1)" and
    c: "LabelLine_new env (label_size l1) (lines l1)
             ((layout l1)\<lparr>layout_segment_index := Some (segment_index l1),
                          layout_placement := Some (placement l1)\<rparr>) = Inr n" and
    t: "\<not> throw_away n" by blast
  let ?lay = "(layout l1)\<lparr>layout_segment_index := Some (segment_index l1),
                          layout_placement := Some (placement l1)\<rparr>"
  let ?init = "LabelLine_init (label_size l1) (lines l1) ?lay"
  note gs = getNextSegment_same[OF g]
  note co = constructed_on_line[OF c t]
  note cc = constructed_coherent[OF c t]
  from gs have si: "lines l1 = lines label" "layout l1 = layout label"
    by (simp_all add: same_inputs_def)
  show "on_line n" by (rule co(1))
  from cc(2) si show ln: "lines n = lines label" by simp
  show "coherent n" by (rule cc(1))
  from cc(3) si show lc: "layout_corners (layout n) = layout_corners (layout label)"
    by (simp add: layout_corners_def)
  have pi: "placement ?init = placement l1" "lines ?init = lines l1"
    by (simp_all add: init_fields)
  have ci: "corners_arise ?init = layout_corners (layout label)"
    by (simp add: init_fields layout_corners_def si)
  note ob = on_line_bounds[OF co(1)]
  show "cursor_left n < cursor_left label"
  proof (cases "segment_index l1 = 0")
    case True
    then have "2 * length (lines l1) \<le> cursor_left l1" by (simp add: cursor_left_def)
    with ob(2) ln si gs show ?thesis by simp
  next
    case False
    then have "segment_index ?init = segment_index l1" by (simp add: init_fields js_or_def)
    with pi have "cursor_left ?init = cursor_left l1" by (simp add: cursor_left_def)
    with co(4) gs show ?thesis by simp
  qed
  show "corners_arise label \<or> layout_corners (layout label) \<or> straight_left n < straight_left label"
  proof (cases "corners_arise label \<or> layout_corners (layout label)")
    case True
    then show ?thesis by blast
  next
    case nc: False
    with gs have lt: "straight_left l1 < straight_left label" by blast
    show ?thesis
    proof (cases "segment_index l1 = 0")
      case True
      then have "length (lines l1) \<le> straight_left l1" by (simp add: straight_left_def)
      with ob(4) ln si lt show ?thesis by simp
    next
      case False
      then have "segment_index ?init = segment_index l1" by (simp add: init_fields js_or_def)
      with pi have "straight_left ?init = straight_left l1" by (simp add: straight_left_def)
      with co(5) ci nc lt show ?thesis by simp
    qed
  qed
qed

text \<open>
  The attempts that repeated calls of \<open>nextLabel\<close> return, until it returns \<open>false\<close> (or
  raises). The cursor moves on with every call, so the chain is finite.
\<close>

function advance_chain :: "env \<Rightarrow> LabelLine \<Rightarrow> LabelLine list" where
  "advance_chain env label =
     (case nextLabel env label of
        Inr (Some n) \<Rightarrow> n # advance_chain env n
      | _ \<Rightarrow> [])"
  by pat_completeness auto
termination
proof (relation "measure (\<lambda>(env, label). cursor_left label)", goal_cases)
  case 1
  show ?case by simp
next
  case (2 env label x2 n)
  then have "nextLabel env label = Inr (Some n)" by simp
  from nextLabel_progress(1)[OF this] show ?case by simp
qed

declare advance_chain.simps [simp del]


lemma advance_chain_Some:
  "nextLabel env label = Inr (Some n) \<Longrightarrow> advance_chain env label = n # advance_chain env n"
  by (subst advance_chain.simps) simp

lemma advance_chain_end:
  "nextLabel env label \<noteq> Inr (Some n) \<Longrightarrow> \<forall>n. nextLabel env label \<noteq> Inr (Some n) \<Longrightarrow>
     advance_chain env label = []"
  by (subst advance_chain.simps) (auto split: sum.splits option.splits)

lemma advance_chain_cases:
  obtains n where "nextLabel env label = Inr (Some n)" "advance_chain env label = n # advance_chain env n"
  | "\<forall>n. nextLabel env label \<noteq> Inr (Some n)" "advance_chain env label = []"
proof (cases "\<exists>n. nextLabel env label = Inr (Some n)")
  case True
  then obtain n where "nextLabel env label = Inr (Some n)" by blast
  with advance_chain_Some[OF this] that(1) show ?thesis by blast
next
  case False
  then have "\<forall>n. nextLabel env label \<noteq> Inr (Some n)" by blast
  moreover from this have "advance_chain env label = []"
    by (subst advance_chain.simps) (auto split: sum.splits option.splits)
  ultimately show ?thesis using that(2) by blast
qed

lemma chain_bound:
  "length (advance_chain env label) \<le> cursor_left label - 4"
proof (induction env label rule: advance_chain.induct)
  case (1 env label)
  show ?case
  proof (cases rule: advance_chain_cases[of env label])
    case (1 n)
    from "1.IH"[OF 1(1) refl] have ih: "length (advance_chain env n) \<le> cursor_left n - 4" .
    from nextLabel_progress(1,2)[OF 1(1)] have "cursor_left n < cursor_left label" "on_line n" .
    with on_line_bounds(1)[of n] ih 1(2) show ?thesis by simp
  next
    case 2
    then show ?thesis by simp
  qed
qed

lemma chain_bound_straight:
  assumes "coherent label" "\<not> layout_corners (layout label)"
  shows "length (advance_chain env label) \<le> straight_left label - 2"
  using assms
proof (induction env label rule: advance_chain.induct)
  case (1 env label)
  show ?case
  proof (cases rule: advance_chain_cases[of env label])
    case (1 n)
    note p = nextLabel_progress[OF 1(1)]
    from p(4,5) "1.prems" have "coherent n" "\<not> layout_corners (layout n)" by simp_all
    from "1.IH"[OF 1(1) refl this] have ih: "length (advance_chain env n) \<le> straight_left n - 2" .
    from "1.prems" have "\<not> corners_arise label" by (simp add: coherent_def)
    with p(6) "1.prems"(2) have "straight_left n < straight_left label" by blast
    with on_line_bounds(3)[OF p(2)] ih 1(2) show ?thesis by simp
  next
    case 2
    then show ?thesis by simp
  qed
qed

lemma nextLabel_ok:
  assumes "on_line label" "\<not> let_tdz env"
  shows "\<exists>r. nextLabel env label = Inr r"
proof (cases "getNextSegment label")
  case None
  then show ?thesis by (simp add: nextLabel_def)
next
  case (Some a)
  then obtain seg l1 where g: "getNextSegment label = Some (seg, l1)" by (cases a) auto
  let ?lay = "(layout l1)\<lparr>layout_segment_index := Some (segment_index l1),
                          layout_placement := Some (placement l1)\<rparr>"
  let ?init = "LabelLine_init (label_size l1) (lines l1) ?lay"
  from getNextSegment_on_line[OF assms(1) g] have o: "on_line l1" .
  then have "segment_index l1 \<noteq> 0 \<or> placement l1 = MID_POINT"
    by (cases "placement l1") (auto simp: on_line_def)
  moreover from assms(1) g have "segment_index l1 \<noteq> 0"
    by (auto simp: getNextSegment_def on_line_def Let_def split: placement.splits if_splits)
  ultimately have e: "segment_index ?init = segment_index l1" "placement ?init = placement l1"
    "lines ?init = lines l1"
    by (simp_all add: init_fields js_or_def)
  from o have "on_line ?init" unfolding on_line_def e .
  from LabelLine_new_ok[OF assms(2) this] obtain n where
    "LabelLine_new env (label_size l1) (lines l1) ?lay = Inr n" by blast
  with g show ?thesis by (simp add: nextLabel_def Let_def)
qed

lemma chain_ends:
  assumes "on_line label" "\<not> let_tdz env"
  shows "nextLabel env (last (label # advance_chain env label)) = Inr None"
  using assms
proof (induction env label rule: advance_chain.induct)
  case (1 env label)
  show ?case
  proof (cases rule: advance_chain_cases[of env label])
    case (1 n)
    from nextLabel_progress(2)[OF 1(1)] have "on_line n" .
    from "1.IH"[OF 1(1) refl this "1.prems"(2)] 1(2) show ?thesis by simp
  next
    case 2
    from nextLabel_ok[OF "1.prems"] obtain r where r: "nextLabel env label = Inr r" by blast
    with 2(1) have "r = None" by (cases r) auto
    with r 2(2) show ?thesis by simp
  qed
qed

section \<open>A line that runs east\<close>

lemma east_straight_fit:
  assumes "placement s = MID_POINT" "label_size s = (Fin 10, h)" "line_exceed (layout s) = Fin 0"
    "units_per_pixel (layout s) = Fin 1"
  shows "doesSegmentFit s [Some (Fin x, Fin y), Some (Fin (x + 100), Fin y)] = Inr (True, s)"
  using assms
  by (simp add: doesSegmentFit_def seg_at_def jsub_def sqrt_10000)

lemma east_corner_fit:
  assumes "label_size s = (Fin 10, h)" "line_exceed (layout s) = Fin 0"
    "units_per_pixel (layout s) = Fin 1" "segment_size s = [Fin 5, Fin 5]"
  shows "fitKinkedSegment s
           [Some (Fin x, Fin y), Some (Fin (x + 100), Fin y), Some (Fin (x + 200), Fin y)] =
         Inr (True, s\<lparr>kink_index := 1, collapsed_size := [Fin 5, Fin 5]\<rparr>)"
proof -
  let ?seg = "[Some (Fin x, Fin y), Some (Fin (x + 100), Fin y), Some (Fin (x + 200), Fin y)]"
  have v: "Vector_sub (seg_at ?seg 0) (seg_at ?seg 1) = Inr (Fin (- 100), Fin 0)"
    "Vector_sub (seg_at ?seg 1) (seg_at ?seg 2) = Inr (Fin (- 100), Fin 0)"
    by (simp_all add: seg_at_def jsub_def)
  from assms(4) have ss: "segment_size s = map Fin [5, 5]" by simp
  have c: "collapse (segment_size s) 1 = (Fin 5, Fin 5)"
    unfolding ss collapse_fin by simp
  have ks: "kink_search (segment_size s) (units_per_pixel (layout s))
           (jdiv (Fin 100) (jsub (Fin 100) (line_exceed (layout s))))
           (Vector_length (Fin (- 100), Fin 0)) (Vector_length (Fin (- 100), Fin 0))
           (False, int (length (segment_size s)) - 1, fst (label_size s), Fin 0) =
             (True, 1, Fin 5, Fin 5)"
    by (simp add: assms kink_search_step num_at_def jsub_def sqrt_10000)
  show ?thesis
    unfolding fitKinkedSegment_unfold[OF v ks] c
    by (simp add: jgt_def)
qed

lemma east_straight_new:
  assumes "placement (LabelLine_init sz ls lay) = MID_POINT"
    and "getCurrentSegment (LabelLine_init sz ls lay) = [Some (Fin x, Fin y), Some (Fin (x + 100), Fin y)]"
    and "doesSegmentFit (LabelLine_init sz ls lay) [Some (Fin x, Fin y), Some (Fin (x + 100), Fin y)] =
           Inr (True, LabelLine_init sz ls lay)"
  shows "\<exists>a p lb. LabelLine_new plain_env sz ls lay =
           Inr ((LabelLine_init sz ls lay)\<lparr>angle := a, position := p, labels := lb,
                                             isArticulated := False\<rparr>)"
proof -
  let ?s = "LabelLine_init sz ls lay"
  let ?seg = "[Some (Fin x, Fin y), Some (Fin (x + 100), Fin y)]"
  have a: "getCurrentAngle ?s = Inr [Fin 0]"
    unfolding getCurrentAngle_def assms(2) Let_def
    by (simp add: assms(1) seg_at_def angle_east)
  obtain p where p: "getCurrentPosition ?s = Inr p"
    unfolding getCurrentPosition_def assms(2) Let_def
    by (simp add: assms(1) seg_at_def)
  have b: "inAngleBounds (?s\<lparr>angle := [Fin 0]\<rparr>)"
    by (simp add: inAngleBounds_def assms(1))
  have "\<not> let_tdz plain_env" "\<And>t. inTileBounds plain_env t" by (simp_all add: plain_env_def)
  from search_accepts_first[OF assms(3) this(1) a p this(2) b] obtain lb where
    "getNextFittingSegment plain_env (Some ?seg) ?s =
       Inr (Some ?seg, ?s\<lparr>angle := [Fin 0], position := Some p, labels := lb,
                        isArticulated := (placement ?s = CORNER)\<rparr>)" by blast
  then have "LabelLine_new plain_env sz ls lay =
       Inr (?s\<lparr>angle := [Fin 0], position := Some p, labels := lb, isArticulated := False\<rparr>)"
    by (simp add: LabelLine_new_def assms(2) Let_def assms(1))
  then show ?thesis by blast
qed

lemma east_corner_new:
  assumes "placement (LabelLine_init sz ls lay) = CORNER"
    and "getCurrentSegment (LabelLine_init sz ls lay) =
           [Some (Fin x, Fin y), Some (Fin (x + 100), Fin y), Some (Fin (x + 200), Fin y)]"
    and "fitKinkedSegment (LabelLine_init sz ls lay)
           [Some (Fin x, Fin y), Some (Fin (x + 100), Fin y), Some (Fin (x + 200), Fin y)] =
           Inr (True, s2)"
  shows "\<exists>a p lb. LabelLine_new plain_env sz ls lay =
           Inr (s2\<lparr>angle := a, position := p, labels := lb, isArticulated := True\<rparr>)"
proof -
  let ?s = "LabelLine_init sz ls lay"
  let ?seg = "[Some (Fin x, Fin y), Some (Fin (x + 100), Fin y), Some (Fin (x + 200), Fin y)]"
  from fitKinkedSegment_state[OF assms(3)] have
    same: "placement s2 = placement ?s" "lines s2 = lines ?s" "segment_index s2 = segment_index ?s"
    by auto
  with assms(1) have pl2: "placement s2 = CORNER" by simp
  from same assms(1,2) have g2: "getCurrentSegment s2 = ?seg"
    by (simp add: getCurrentSegment_def)
  from assms(1,3) have f: "doesSegmentFit ?s ?seg = Inr (True, s2)"
    by (simp add: doesSegmentFit_def)
  have a: "getCurrentAngle s2 = Inr [Fin 0, Fin 0]"
    unfolding getCurrentAngle_def g2 Let_def
    by (simp add: pl2 seg_at_def angle_east jsub_def jge_def)
  have p: "getCurrentPosition s2 = Inr (Fin (x + 100), Fin y)"
    unfolding getCurrentPosition_def g2 Let_def
    by (simp add: pl2 seg_at_def)
  have b: "inAngleBounds (s2\<lparr>angle := [Fin 0, Fin 0]\<rparr>)"
    by (simp add: inAngleBounds_def pl2 num_at_def lift_angle_def jsub_def jmin_def MAX_ANGLE_def
        pi_facts)
  have "\<not> let_tdz plain_env" "\<And>t. inTileBounds plain_env t" by (simp_all add: plain_env_def)
  from search_accepts_first[OF f this(1) a p this(2) b] obtain lb where
    "getNextFittingSegment plain_env (Some ?seg) ?s =
       Inr (Some ?seg, s2\<lparr>angle := [Fin 0, Fin 0], position := Some (Fin (x + 100), Fin y),
                          labels := lb, isArticulated := (placement s2 = CORNER)\<rparr>)" by blast
  then have "LabelLine_new plain_env sz ls lay =
       Inr (s2\<lparr>angle := [Fin 0, Fin 0], position := Some (Fin (x + 100), Fin y),
                          labels := lb, isArticulated := True\<rparr>)"
    by (simp add: LabelLine_new_def assms(2) Let_def pl2)
  then show ?thesis by blast
qed


lemma east_new:
  assumes "east_layout lay"
    and "(case layout_placement lay of None \<Rightarrow> MID_POINT | Some q \<Rightarrow> q) = p"
    and "js_or (layout_segment_index lay) 0 = i"
    and "(p = MID_POINT \<and> (i = 0 \<or> i = 1 \<or> i = 2)) \<or> (p = CORNER \<and> (i = 1 \<or> i = 2))"
  shows "\<exists>s'. LabelLine_new plain_env (Fin 10, Fin 2) four_points lay = Inr s' \<and> east_state s' p i"
proof -
  let ?s = "LabelLine_init (Fin 10, Fin 2) four_points lay"
  from assms(1) have l: "line_exceed lay = Fin 0" "units_per_pixel lay = Fin 1"
    "layout_segment_size lay = [Fin 5, Fin 5]" "layout_articulated lay = None"
    "layout_segment_start lay = None" by (simp_all add: east_layout_def)
  from assms(2) have pl: "placement ?s = p" by (simp add: init_fields)
  from assms(3) l(5) have ix: "segment_index ?s = i" by (simp add: init_fields js_or_def)
  have f: "label_size ?s = (Fin 10, Fin 2)" "line_exceed (layout ?s) = Fin 0"
    "units_per_pixel (layout ?s) = Fin 1" "segment_size ?s = [Fin 5, Fin 5]"
    "lines ?s = four_points" "should_articulate ?s" "\<not> throw_away ?s" "layout ?s = lay"
    by (simp_all add: LabelLine_init_def l)
  show ?thesis
  proof (cases p)
    case MID_POINT
    with assms(4) have i: "i = 0 \<or> i = 1 \<or> i = 2" by simp
    define x :: real where "x = 100 * of_int i"
    from pl MID_POINT have pm: "placement ?s = MID_POINT" by simp
    from i have g: "getCurrentSegment ?s = [Some (Fin x, Fin 0), Some (Fin (x + 100), Fin 0)]"
      unfolding getCurrentSegment_def pm ix f(5) x_def
      by (auto simp: four_points_def line_at_def)
    from east_straight_new[OF pm g east_straight_fit[OF pm f(1,2,3)]] obtain a ps lb where
      "LabelLine_new plain_env (Fin 10, Fin 2) four_points lay =
         Inr (?s\<lparr>angle := a, position := ps, labels := lb, isArticulated := False\<rparr>)" by blast
    moreover have "east_state (?s\<lparr>angle := a, position := ps, labels := lb, isArticulated := False\<rparr>) p i"
      using pl ix f l by (simp add: east_state_def)
    ultimately show ?thesis by blast
  next
    case CORNER
    with assms(4) have i: "i = 1 \<or> i = 2" by simp
    define x :: real where "x = 100 * of_int (i - 1)"
    from pl CORNER have pc: "placement ?s = CORNER" by simp
    from i have g: "getCurrentSegment ?s =
        [Some (Fin x, Fin 0), Some (Fin (x + 100), Fin 0), Some (Fin (x + 200), Fin 0)]"
      unfolding getCurrentSegment_def pc ix f(5) x_def
      by (auto simp: four_points_def line_at_def)
    from east_corner_new[OF pc g east_corner_fit[OF f(1,2,3,4)]] obtain a ps lb where
      "LabelLine_new plain_env (Fin 10, Fin 2) four_points lay =
         Inr (?s\<lparr>kink_index := 1, collapsed_size := [Fin 5, Fin 5], angle := a, position := ps,
                  labels := lb, isArticulated := True\<rparr>)" by blast
    moreover have "east_state (?s\<lparr>kink_index := 1, collapsed_size := [Fin 5, Fin 5], angle := a,
                  position := ps, labels := lb, isArticulated := True\<rparr>) p i"
      using pl ix f l by (simp add: east_state_def)
    ultimately show ?thesis by blast
  qed
qed

lemma east_next:
  assumes "east_state label p i"
    and "(p = MID_POINT \<and> (i = 0 \<or> i = 1)) \<or> (p = CORNER \<and> (i = 1 \<or> i = 2))"
  shows "\<exists>n. nextLabel plain_env label = Inr (Some n) \<and>
           east_state n (if p = CORNER then MID_POINT else CORNER) (if p = CORNER then i else i + 1)"
proof -
  let ?p = "if p = CORNER then MID_POINT else CORNER"
  let ?i = "if p = CORNER then i else i + 1"
  let ?l1 = "label\<lparr>placement := ?p, segment_index := ?i\<rparr>"
  from assms(1) have e: "placement label = p" "segment_index label = i" "lines label = four_points"
    "label_size label = (Fin 10, Fin 2)" "east_layout (layout label)" "should_articulate label"
    "segment_size label = [Fin 5, Fin 5]"
    by (simp_all add: east_state_def east_layout_def)
  from assms(2) e obtain seg where g: "getNextSegment label = Some (seg, ?l1)"
    by (cases p) (auto simp: getNextSegment_def Let_def four_points_def)
  let ?lay = "(layout ?l1)\<lparr>layout_segment_index := Some (segment_index ?l1),
                            layout_placement := Some (placement ?l1)\<rparr>"
  from e(5) have el: "east_layout ?lay" by (simp add: east_layout_def)
  have pp: "(case layout_placement ?lay of None \<Rightarrow> MID_POINT | Some q \<Rightarrow> q) = ?p" by simp
  have ii: "js_or (layout_segment_index ?lay) 0 = ?i" by (simp add: js_or_def)
  from assms(2) have ok: "(?p = MID_POINT \<and> (?i = 0 \<or> ?i = 1 \<or> ?i = 2)) \<or> (?p = CORNER \<and> (?i = 1 \<or> ?i = 2))"
    by auto
  from east_new[OF el pp ii ok] obtain n where
    n: "LabelLine_new plain_env (Fin 10, Fin 2) four_points ?lay = Inr n" "east_state n ?p ?i"
    by blast
  from n(2) have "\<not> throw_away n" by (simp add: east_state_def)
  with g n(1) e(3,4) have "nextLabel plain_env label = Inr (Some n)"
    by (simp add: nextLabel_def Let_def)
  with n(2) show ?thesis by blast
qed

lemma east_last:
  assumes "east_state label MID_POINT 2"
  shows "advance_chain plain_env label = []"
proof -
  from assms have "getNextSegment label = None"
    by (simp add: east_state_def getNextSegment_def four_points_def)
  then have "nextLabel plain_env label = Inr None" by (simp add: nextLabel_def)
  then show ?thesis by (subst advance_chain.simps) simp
qed

lemma four_points_chain:
  "\<exists>label. LabelLine_new plain_env (Fin 10, Fin 2) four_points plain_layout = Inr label \<and>
     \<not> throw_away label \<and> length (advance_chain plain_env label) = 4"
proof -
  have el: "east_layout plain_layout" by (simp add: east_layout_def plain_layout_def)
  have pp: "(case layout_placement plain_layout of None \<Rightarrow> MID_POINT | Some q \<Rightarrow> q) = MID_POINT"
    by (simp add: plain_layout_def)
  have ii: "js_or (layout_segment_index plain_layout) 0 = 0"
    by (simp add: plain_layout_def js_or_def)
  from east_new[OF el pp ii] obtain l0 where
    l0: "LabelLine_new plain_env (Fin 10, Fin 2) four_points plain_layout = Inr l0"
        "east_state l0 MID_POINT 0" by auto
  from east_next[OF l0(2)] obtain l1 where
    l1: "nextLabel plain_env l0 = Inr (Some l1)" "east_state l1 CORNER 1" by auto
  from east_next[OF l1(2)] obtain l2 where
    l2: "nextLabel plain_env l1 = Inr (Some l2)" "east_state l2 MID_POINT 1" by auto
  from east_next[OF l2(2)] obtain l3 where
    l3: "nextLabel plain_env l2 = Inr (Some l3)" "east_state l3 CORNER 2" by auto
  from east_next[OF l3(2)] obtain l4 where
    l4: "nextLabel plain_env l3 = Inr (Some l4)" "east_state l4 MID_POINT 2" by auto
  have "advance_chain plain_env l0 = [l1, l2, l3, l4]"
    by (simp add: advance_chain_Some[OF l1(1)] advance_chain_Some[OF l2(1)]
        advance_chain_Some[OF l3(1)] advance_chain_Some[OF l4(1)] east_last[OF l4(2)])
  moreover from l0(2) have "\<not> throw_away l0" by (simp add: east_state_def)
  ultimately show ?thesis using l0(1) by auto
qed


lemma rigid_new:
  "\<exists>s'. LabelLine_new plain_env (Fin 10, Fin 2) two_points rigid_layout = Inr s' \<and> \<not> throw_away s'"
proof -
  let ?s = "LabelLine_init (Fin 10, Fin 2) two_points rigid_layout"
  have pl: "placement ?s = MID_POINT"
    by (simp add: LabelLine_init_def rigid_layout_def plain_layout_def)
  have g: "getCurrentSegment ?s = [Some (Fin 0, Fin 0), Some (Fin (0 + 100), Fin 0)]"
    unfolding getCurrentSegment_def pl
    by (simp add: LabelLine_init_def two_points_def rigid_layout_def plain_layout_def js_or_def
        line_at_def)
  have f: "label_size ?s = (Fin 10, Fin 2)" "line_exceed (layout ?s) = Fin 0"
    "units_per_pixel (layout ?s) = Fin 1" "\<not> throw_away ?s"
    by (simp_all add: LabelLine_init_def rigid_layout_def plain_layout_def)
  from east_straight_new[OF pl g east_straight_fit[OF pl f(1,2,3)]] obtain a ps lb where
    "LabelLine_new plain_env (Fin 10, Fin 2) two_points rigid_layout =
       Inr (?s\<lparr>angle := a, position := ps, labels := lb, isArticulated := False\<rparr>)" by blast
  with f(4) show ?thesis by simp
qed

section \<open>Reads outside the line\<close>

lemma search_raises:
  assumes "doesSegmentFit s seg = Inl e"
  shows "getNextFittingSegment env (Some seg) s = Inl e"
  using assms by (subst getNextFittingSegment.simps) simp

lemma one_point_raises:
  "LabelLine_new env (Fin 10, Fin 2) one_point plain_layout = Inl TypeError"
proof -
  let ?s = "LabelLine_init (Fin 10, Fin 2) one_point plain_layout"
  have pl: "placement ?s = MID_POINT" by (simp add: LabelLine_init_def plain_layout_def)
  have g: "getCurrentSegment ?s = [Some (Fin 0, Fin 0), None]"
    unfolding getCurrentSegment_def pl
    by (simp add: LabelLine_init_def one_point_def plain_layout_def js_or_def line_at_def)
  have "doesSegmentFit ?s [Some (Fin 0, Fin 0), None] = Inl TypeError"
    by (simp add: doesSegmentFit_def pl seg_at_def)
  from search_raises[OF this] show ?thesis
    by (simp add: LabelLine_new_def g Let_def)
qed

lemma corner_first_raises:
  "LabelLine_new env (Fin 10, Fin 2) three_points corner_first_layout = Inl TypeError"
proof -
  let ?s = "LabelLine_init (Fin 10, Fin 2) three_points corner_first_layout"
  have pl: "placement ?s = CORNER"
    by (simp add: LabelLine_init_def corner_first_layout_def plain_layout_def)
  have g: "getCurrentSegment ?s = [None, Some (Fin 0, Fin 0), Some (Fin 100, Fin 0)]"
    unfolding getCurrentSegment_def pl
    by (simp add: LabelLine_init_def three_points_def corner_first_layout_def plain_layout_def
        js_or_def line_at_def)
  have "doesSegmentFit ?s [None, Some (Fin 0, Fin 0), Some (Fin 100, Fin 0)] = Inl TypeError"
    by (simp add: doesSegmentFit_def pl fitKinkedSegment_def seg_at_def)
  from search_raises[OF this] show ?thesis
    by (simp add: LabelLine_new_def g Let_def)
qed

lemma nextLabel_on_line:
  assumes "nextLabel env s = Inr (Some n)"
  shows "on_line n"
proof -
  from nextLabel_Some[OF assms] obtain seg l1 where
    "getNextSegment s = Some (seg, l1)" and
    "LabelLine_new env (label_size l1) (lines l1)
             ((layout l1)\<lparr>layout_segment_index := Some (segment_index l1),
                          layout_placement := Some (placement l1)\<rparr>) = Inr n" and "\<not> throw_away n"
    by auto
  from constructed_on_line(1)[OF this(2,3)] show ?thesis .
qed

lemma update_parts:
  assumes "on_line s" "\<not> let_tdz env"
  shows "\<exists>a p lb. getCurrentAngle s = Inr a \<and> a \<noteq> [] \<and> getCurrentPosition s = Inr p \<and>
           updateBBoxes env (s\<lparr>angle := a, position := Some p\<rparr>) =
             Inr (s\<lparr>angle := a, position := Some p, labels := lb\<rparr>) \<and>
           update env s = Inr (s\<lparr>angle := a, position := Some p, labels := lb\<rparr>)"
proof -
  from getCurrentAngle_ok[OF assms(1)] obtain a where a: "getCurrentAngle s = Inr a" by blast
  from getCurrentPosition_ok[OF assms(1)] obtain p where p: "getCurrentPosition s = Inr p" by blast
  note n = getCurrentAngle_set[OF a]
  from updateBBoxes_ok[OF assms(2), of "s\<lparr>angle := a, position := Some p\<rparr>" p] n obtain lb where
    u: "updateBBoxes env (s\<lparr>angle := a, position := Some p\<rparr>) =
          Inr (s\<lparr>angle := a, position := Some p, labels := lb\<rparr>)" by auto
  from p have "getCurrentPosition (s\<lparr>angle := a\<rparr>) = Inr p"
    by (simp add: getCurrentPosition_def getCurrentSegment_def cong: placement.case_cong)
  with a u have "update env s = Inr (s\<lparr>angle := a, position := Some p, labels := lb\<rparr>)"
    by (simp add: update_def Let_def)
  with a n p u show ?thesis by blast
qed

section \<open>The claims\<close>

text \<open>
  C1. The claim: the cursor stays within the configured range from \<open>segment_start\<close> to
  \<open>segment_end\<close>, and a straight placement reports exhaustion once
  \<open>segment_index >= segment_end - 2\<close>. The constructor stores \<open>segment_end\<close> in
  \<open>segment_max\<close>, but \<open>getNextSegment\<close> compares with the length of the whole line.
  On the ten-point line with the range from 2 to 5 and a label that fits nowhere, the
  cursor starts at 2, advances from index 3 and from index 4 (where the claim has it
  exhausted) and stops at index 8.
\<close>

theorem cursor_ignores_segment_end:
  "segment_index (LabelLine_init (Fin 1000, Fin 10) ten_points ranged_layout) = 2 \<and>
   segment_max (LabelLine_init (Fin 1000, Fin 10) ten_points ranged_layout) = 5 \<and>
   (\<exists>seg s'. getNextSegment
       ((LabelLine_init (Fin 1000, Fin 10) ten_points ranged_layout)\<lparr>segment_index := 3\<rparr>)
         = Some (seg, s') \<and> segment_index s' = 4) \<and>
   (\<exists>seg s'. getNextSegment
       ((LabelLine_init (Fin 1000, Fin 10) ten_points ranged_layout)\<lparr>segment_index := 4\<rparr>)
         = Some (seg, s') \<and> segment_index s' = 5) \<and>
   (\<exists>s. LabelLine_new plain_env (Fin 1000, Fin 10) ten_points ranged_layout = Inr s \<and>
        throw_away s \<and> segment_index s = 8 \<and> segment_max s = 5)"
  by (simp add: LabelLine_new_def LabelLine_init_def ten_points_def ranged_layout_def
      plain_env_def js_or_def getNextFittingSegment.simps getCurrentSegment_def
      getNextSegment_def line_at_def doesSegmentFit_def seg_at_def jsub_def Let_def)

text \<open>
  C8. In corner mode one advance of the cursor switches to the straight mode and leaves
  \<open>segment_index\<close> (and every other field) as it is; the segment it returns is the
  straight segment at that index. It never reports exhaustion.
\<close>

theorem corner_advances_to_straight:
  assumes "placement s = CORNER"
  shows "getNextSegment s =
           Some ([line_at (lines s) (segment_index s), line_at (lines s) (segment_index s + 1)],
                 s\<lparr>placement := MID_POINT\<rparr>)"
  using assms by (simp add: getNextSegment_def getCurrentSegment_def Let_def)

theorem corner_advances_to_straight_witness:
  "placement (LabelLine_init (Fin 10, Fin 2) three_points corner_layout) = CORNER \<and>
   getNextSegment (LabelLine_init (Fin 10, Fin 2) three_points corner_layout) =
     Some ([Some (Fin 100, Fin 0), Some (Fin 200, Fin 0)],
           (LabelLine_init (Fin 10, Fin 2) three_points corner_layout)\<lparr>placement := MID_POINT\<rparr>)"
  using corner_advances_to_straight[of "LabelLine_init (Fin 10, Fin 2) three_points corner_layout"]
  by (simp add: LabelLine_init_def three_points_def corner_layout_def js_or_def line_at_def)

text \<open>
  C3. The claim: a corner segment whose two direction vectors disagree in sign on exactly
  one axis and agree on the other is rejected at once. The test of \<open>fitKinkedSegment\<close> is
  one-sided: it rejects when the x components disagree in sign and the y components agree
  (the vertical line test of its comment). Amended: for finite points whose x differences
  have a negative product and whose y differences have a positive product,
  \<open>fitKinkedSegment\<close> returns false and leaves the state as it is, and no attempt that the
  constructor returns in corner mode stands on such a segment.
\<close>

theorem kink_rejection:
  "((x0 - x1) * (x1 - x2) < 0 \<and> 0 < (y0 - y1) * (y1 - y2) \<longrightarrow>
      fitKinkedSegment s [Some (Fin x0, Fin y0), Some (Fin x1, Fin y1), Some (Fin x2, Fin y2)] =
        Inr (False, s)) \<and>
   (LabelLine_new env sz ls lay = Inr s' \<and> \<not> throw_away s' \<and>
    corner_points s' (Fin u0, Fin v0) (Fin u1, Fin v1) (Fin u2, Fin v2) \<longrightarrow>
      \<not> ((u0 - u1) * (u1 - u2) < 0 \<and> 0 < (v0 - v1) * (v1 - v2)))"
proof (intro conjI impI)
  assume "(x0 - x1) * (x1 - x2) < 0 \<and> 0 < (y0 - y1) * (y1 - y2)"
  then show "fitKinkedSegment s [Some (Fin x0, Fin y0), Some (Fin x1, Fin y1), Some (Fin x2, Fin y2)] =
        Inr (False, s)"
    using fit_rejects_vertical by blast
next
  assume h: "LabelLine_new env sz ls lay = Inr s' \<and> \<not> throw_away s' \<and>
    corner_points s' (Fin u0, Fin v0) (Fin u1, Fin v1) (Fin u2, Fin v2)"
  then have c: "placement s' = CORNER"
    "getCurrentSegment s' = [Some (Fin u0, Fin v0), Some (Fin u1, Fin v1), Some (Fin u2, Fin v2)]"
    by (simp_all add: corner_points_def)
  from h c(1) corner_attempt_fit[of env sz ls lay s'] obtain s1 s2 where
    "fitKinkedSegment s1 (getCurrentSegment s') = Inr (True, s2)" by blast
  with c(2) show "\<not> ((u0 - u1) * (u1 - u2) < 0 \<and> 0 < (v0 - v1) * (v1 - v2))"
    using fit_rejects_vertical[of u0 u1 u2 v0 v1 v2 s1] by auto
qed


theorem kink_rejection_witness:
  "((0::real) - 1) * (1 - 0) < 0 \<and> (0::real) < (0 - 1) * (1 - 2) \<and>
   fitKinkedSegment (LabelLine_init (Fin 2, Fin 1) bent_points bent_layout)
       [Some (Fin 0, Fin 0), Some (Fin 1, Fin 1), Some (Fin 0, Fin 2)] =
     Inr (False, LabelLine_init (Fin 2, Fin 1) bent_points bent_layout) \<and>
   (\<exists>s'. LabelLine_new plain_env (Fin 10, Fin 2) three_points corner_layout = Inr s' \<and>
      \<not> throw_away s' \<and>
      corner_points s' (Fin 0, Fin 0) (Fin 100, Fin 0) (Fin 200, Fin 0) \<and>
      \<not> (((0::real) - 100) * (100 - 200) < 0 \<and> (0::real) < (0 - 0) * (0 - 0)))"
proof -
  from corner_example obtain s' where
    c: "LabelLine_new plain_env (Fin 10, Fin 2) three_points corner_layout = Inr s'"
       "\<not> throw_away s'" "corner_points s' (Fin 0, Fin 0) (Fin 100, Fin 0) (Fin 200, Fin 0)"
    by blast
  note t = kink_rejection[where ?x0.0 = 0 and ?x1.0 = 1 and ?x2.0 = 0 and ?y0.0 = 0 and ?y1.0 = 1
      and ?y2.0 = 2 and s = "LabelLine_init (Fin 2, Fin 1) bent_points bent_layout"
      and env = plain_env and sz = "(Fin 10, Fin 2)" and ls = three_points and lay = corner_layout
      and s' = s' and ?u0.0 = 0 and ?v0.0 = 0 and ?u1.0 = 100 and ?v1.0 = 0 and ?u2.0 = 200
      and ?v2.0 = 0]
  have 1: "((0::real) - 1) * (1 - 0) < 0" and 2: "(0::real) < (0 - 1) * (1 - 2)" by simp_all
  from t 1 2 have 3: "fitKinkedSegment (LabelLine_init (Fin 2, Fin 1) bent_points bent_layout)
       [Some (Fin 0, Fin 0), Some (Fin 1, Fin 1), Some (Fin 0, Fin 2)] =
     Inr (False, LabelLine_init (Fin 2, Fin 1) bent_points bent_layout)" by blast
  from t c have "\<not> (((0::real) - 100) * (100 - 200) < 0 \<and> (0::real) < (0 - 0) * (0 - 0))"
    by blast
  with c have 4: "\<exists>s'. LabelLine_new plain_env (Fin 10, Fin 2) three_points corner_layout = Inr s' \<and>
      \<not> throw_away s' \<and>
      corner_points s' (Fin 0, Fin 0) (Fin 100, Fin 0) (Fin 200, Fin 0) \<and>
      \<not> (((0::real) - 100) * (100 - 200) < 0 \<and> (0::real) < (0 - 0) * (0 - 0))" by blast
  show ?thesis by (intro conjI) (fact 1 2 3 4)+
qed

text \<open>
  The other one-axis disagreement is accepted: on the line (0,0), (4,1), (8,0) the x
  components agree and the y components disagree, the corner fit succeeds, and the
  constructor returns an articulated corner attempt.
\<close>

theorem kink_rejection_counterexample:
  "0 < ((0::real) - 4) * (4 - 8) \<and> ((0::real) - 1) * (1 - 0) < 0 \<and>
   fitKinkedSegment (LabelLine_init (Fin 2, Fin 1) bent_points bent_layout)
       [Some (Fin 0, Fin 0), Some (Fin 4, Fin 1), Some (Fin 8, Fin 0)] =
     Inr (True, (LabelLine_init (Fin 2, Fin 1) bent_points bent_layout)
                 \<lparr>kink_index := 1, collapsed_size := [Fin 1, Fin 1]\<rparr>) \<and>
   \<not> isl bent_attempt \<and> \<not> throw_away (projr bent_attempt) \<and>
   isArticulated (projr bent_attempt) \<and>
   corner_points (projr bent_attempt) (Fin 0, Fin 0) (Fin 4, Fin 1) (Fin 8, Fin 0)"
proof -
  have 1: "0 < ((0::real) - 4) * (4 - 8)" and 2: "((0::real) - 1) * (1 - 0) < 0" by simp_all
  from bent_example obtain s' where
    n: "bent_attempt = Inr s'" and
    s: "\<not> throw_away s'" "isArticulated s'"
       "corner_points s' (Fin 0, Fin 0) (Fin 4, Fin 1) (Fin 8, Fin 0)"
    unfolding bent_attempt_def by blast
  from s show ?thesis unfolding n sum.sel sum.disc by (intro conjI) (simp_all add: 1 2 bent_fit)
qed




text \<open>
  C4. The claim: for every accepted corner placement the two collapsed sizes add up to the
  sum of the pieces, both are strictly positive (equivalently
  \<open>0 < kink_index < segment_size.length\<close>), and the folded angular difference is at most
  \<open>\<pi>/2\<close>. The split point is always inside the pieces, but a collapsed size is only the sum
  of the pieces on its side: it is positive when the pieces are, and with a piece of width
  0 it can be 0. Amended: for every attempt the constructor returns in corner mode,
  \<open>0 < kink_index < segment_size.length\<close>; \<open>collapsed_size\<close> has two entries, both
  strictly positive if every piece is finite and strictly positive; if the pieces are
  integers, of absolute values that add up to at most \<open>2\<^sup>5\<^sup>3\<close>, the entries are the sums of
  the pieces before and from \<open>kink_index\<close> on, and add up to the sum of all pieces; there
  are two angles, and they pass the angle-bound test of the program
  (\<open>theta <= MAX_ANGLE\<close> for the folded difference, as \<open>inAngleBounds\<close> computes it).
  For pieces that are not integers the program adds up rounded numbers, and whether the
  two entries add up to the sum of all pieces is not stated.
\<close>

theorem accepted_corner:
  assumes "LabelLine_new env sz ls lay = Inr s'" and "\<not> throw_away s'"
    and "placement s' = CORNER"
  shows "0 < kink_index s' \<and> kink_index s' < int (length (layout_segment_size lay)) \<and>
         length (collapsed_size s') = 2 \<and>
         (layout_segment_size lay = map Fin rs \<and> list_all (\<lambda>r. 0 < r) rs \<longrightarrow>
            jlt (Fin 0) (num_at (collapsed_size s') 0) \<and>
            jlt (Fin 0) (num_at (collapsed_size s') 1)) \<and>
         (layout_segment_size lay = map (\<lambda>n. Fin (of_int n)) ns \<and>
          sum_list (map abs ns) \<le> 2 ^ 53 \<longrightarrow>
            collapsed_size s' = [Fin (of_int (sum_list (take (nat (kink_index s')) ns))),
                                 Fin (of_int (sum_list (drop (nat (kink_index s')) ns)))] \<and>
            jadd (num_at (collapsed_size s') 0) (num_at (collapsed_size s') 1) =
              Fin (of_int (sum_list ns))) \<and>
         length (angle s') = 2 \<and> inAngleBounds s'"
proof -
  from corner_attempt_fit[OF assms(1,2,3)] obtain s1 s2 where
    i: "same_inputs (LabelLine_init sz ls lay) s1" and pl: "placement s1 = CORNER"
    and f: "fitKinkedSegment s1 (getCurrentSegment s') = Inr (True, s2)"
    and k: "kink_index s' = kink_index s2" "collapsed_size s' = collapsed_size s2"
    and a: "getCurrentAngle s2 = Inr (angle s')" and b: "inAngleBounds s'" by blast
  from i have ss: "segment_size s1 = layout_segment_size lay"
    by (auto simp: same_inputs_def LabelLine_init_def)
  from fitKinkedSegment_true[OF f] ss obtain kk where
    kk: "0 < kk" "kk < int (length (layout_segment_size lay))"
        "s2 = s1\<lparr>kink_index := kk,
               collapsed_size := [fst (collapse (layout_segment_size lay) kk),
                                  snd (collapse (layout_segment_size lay) kk)]\<rparr>"
    by auto
  from kk(3) k have ki: "kink_index s' = kk"
    and cs: "collapsed_size s' = [fst (collapse (layout_segment_size lay) kk),
                                  snd (collapse (layout_segment_size lay) kk)]"
    by simp_all
  from cs have 3: "length (collapsed_size s') = 2" by simp
  have 4: "jlt (Fin 0) (num_at (collapsed_size s') 0) \<and> jlt (Fin 0) (num_at (collapsed_size s') 1)"
    if "layout_segment_size lay = map Fin rs \<and> list_all (\<lambda>r. 0 < r) rs"
  proof -
    from that kk(2) have "kk < int (length rs)" by simp
    from collapse_pos[OF _ kk(1) this] that show ?thesis
      unfolding cs by (simp add: num_at_def)
  qed
  have 5: "collapsed_size s' = [Fin (of_int (sum_list (take (nat (kink_index s')) ns))),
                                 Fin (of_int (sum_list (drop (nat (kink_index s')) ns)))] \<and>
            jadd (num_at (collapsed_size s') 0) (num_at (collapsed_size s') 1) =
              Fin (of_int (sum_list ns))"
    if "layout_segment_size lay = map (\<lambda>n. Fin (of_int n)) ns \<and> sum_list (map abs ns) \<le> 2 ^ 53"
  proof -
    from that have l: "layout_segment_size lay = map (\<lambda>n. Fin (of_int n)) ns" by simp
    have "sum_list (take (nat kk) ns) + sum_list (drop (nat kk) ns) = sum_list ns"
      by (metis append_take_drop_id sum_list_append)
    then have "(of_int (sum_list (take (nat kk) ns)) :: real) + of_int (sum_list (drop (nat kk) ns)) =
        of_int (sum_list ns)" by (metis of_int_add)
    then show ?thesis unfolding cs ki l collapse_int by (simp add: num_at_def)
  qed
  from kk(3) pl have pl2: "placement s2 = CORNER" by simp
  from getCurrentAngle_corner[OF pl2 a] have 6: "length (angle s') = 2" by auto
  from kk(1,2) 3 4 5 6 b show ?thesis unfolding ki by blast
qed

text \<open>
  With the pieces \<open>[0, 10]\<close> the corner placement is accepted at split point 1, and the
  first collapsed size is 0.
\<close>

theorem accepted_corner_counterexample:
  "\<not> isl zero_piece_attempt \<and> \<not> throw_away (projr zero_piece_attempt) \<and>
   placement (projr zero_piece_attempt) = CORNER \<and> isArticulated (projr zero_piece_attempt) \<and>
   segment_size (projr zero_piece_attempt) = [Fin 0, Fin 10] \<and>
   kink_index (projr zero_piece_attempt) = 1 \<and>
   collapsed_size (projr zero_piece_attempt) = [Fin 0, Fin 10] \<and>
   \<not> jlt (Fin 0) (num_at (collapsed_size (projr zero_piece_attempt)) 0)"
proof -
  have l: "layout_placement zero_piece_layout = Some CORNER"
    "layout_segment_index zero_piece_layout = Some 1"
    by (simp_all add: zero_piece_layout_def corner_layout_def)
  from three_points_corner[OF l zero_piece_fit] obtain lb where
    "LabelLine_new plain_env (Fin 10, Fin 2) three_points zero_piece_layout =
       Inr ((LabelLine_init (Fin 10, Fin 2) three_points zero_piece_layout)
               \<lparr>kink_index := 1, collapsed_size := [Fin 0, Fin 10],
                angle := [Fin 0, Fin 0], position := Some (Fin 100, Fin 0), labels := lb,
                isArticulated := True\<rparr>)" by blast
  then show ?thesis
    unfolding zero_piece_attempt_def
    by (simp add: LabelLine_init_def zero_piece_layout_def corner_layout_def num_at_def)
qed

theorem accepted_corner_witness:
  "\<exists>s'. LabelLine_new plain_env (Fin 10, Fin 2) three_points corner_layout = Inr s' \<and>
     \<not> throw_away s' \<and> placement s' = CORNER \<and>
     layout_segment_size corner_layout = map Fin [5, 5] \<and> list_all (\<lambda>r. 0 < r) [5, 5 :: real] \<and>
     layout_segment_size corner_layout = map (\<lambda>n. Fin (of_int n)) [5, 5] \<and>
     sum_list (map abs [5, 5 :: int]) \<le> 2 ^ 53 \<and>
     kink_index s' = 1 \<and> collapsed_size s' = [Fin 5, Fin 5] \<and> angle s' = [Fin 0, Fin 0] \<and>
     0 < kink_index s' \<and> kink_index s' < int (length (layout_segment_size corner_layout)) \<and>
     length (collapsed_size s') = 2 \<and>
     jlt (Fin 0) (num_at (collapsed_size s') 0) \<and> jlt (Fin 0) (num_at (collapsed_size s') 1) \<and>
     collapsed_size s' = [Fin (of_int (sum_list (take (nat (kink_index s')) [5, 5]))),
                          Fin (of_int (sum_list (drop (nat (kink_index s')) [5, 5])))] \<and>
     jadd (num_at (collapsed_size s') 0) (num_at (collapsed_size s') 1) =
       Fin (of_int (sum_list [5, 5])) \<and>
     length (angle s') = 2 \<and> inAngleBounds s'"
proof -
  from corner_example obtain s' where
    c: "LabelLine_new plain_env (Fin 10, Fin 2) three_points corner_layout = Inr s'"
       "\<not> throw_away s'" "corner_points s' (Fin 0, Fin 0) (Fin 100, Fin 0) (Fin 200, Fin 0)"
       "kink_index s' = 1" "collapsed_size s' = [Fin 5, Fin 5]" "angle s' = [Fin 0, Fin 0]"
    by blast
  from c(3) have pl: "placement s' = CORNER" by (simp add: corner_points_def)
  have l: "layout_segment_size corner_layout = map Fin [5, 5]"
    "layout_segment_size corner_layout = map (\<lambda>n. Fin (of_int n)) [5, 5]"
    by (simp_all add: corner_layout_def)
  have p: "list_all (\<lambda>r. 0 < r) [5, 5 :: real]" "sum_list (map abs [5, 5 :: int]) \<le> 2 ^ 53"
    by simp_all
  note t = accepted_corner[OF c(1) c(2) pl, of "[5, 5]" "[5, 5]"]
  with p c pl l show ?thesis by blast
qed

text \<open>
  C7. The claim: advancing over a line of \<open>N\<close> points yields at most \<open>N-1\<close> placement
  attempts before exhaustion. \<open>advance_chain\<close> is the list of attempts that repeated calls
  of \<open>nextLabel\<close> return; it is a total function, its recursion ends because every call
  moves the cursor on. When labels may articulate the cursor alternates between the
  straight segment and the corner at each inner point, so it has \<open>2N-3\<close> stops, not
  \<open>N-1\<close>. Amended: starting from an attempt the constructor returned without the discard
  flag on a line of \<open>N\<close> points, the attempts (the first one counted) are at most \<open>2N-3\<close>,
  and at most \<open>N-1\<close> when the layout rules corners out (\<open>articulated\<close> is false or there
  are fewer than two pieces); the last attempt of the chain reports exhaustion.
\<close>

theorem advance_chain_bound:
  assumes "LabelLine_new env sz ls lay = Inr label" and "\<not> throw_away label"
  shows "length (label # advance_chain env label) \<le> 2 * length ls - 3 \<and>
         (\<not> layout_corners lay \<longrightarrow> length (label # advance_chain env label) \<le> length ls - 1) \<and>
         nextLabel env (last (label # advance_chain env label)) = Inr None"
proof -
  note co = constructed_on_line[OF assms]
  note cc = constructed_coherent[OF assms]
  note ob = on_line_bounds[OF co(1)]
  from chain_bound[of env label] ob(1,2) cc(2) have
    1: "length (label # advance_chain env label) \<le> 2 * length ls - 3" by simp
  have 2: "length (label # advance_chain env label) \<le> length ls - 1" if "\<not> layout_corners lay"
  proof -
    from that cc(3) have "\<not> layout_corners (layout label)" by simp
    from chain_bound_straight[OF cc(1) this, of env] ob(3,4) cc(2) show ?thesis by simp
  qed
  from chain_ends[OF co(1) co(3)] 1 2 show ?thesis by blast
qed

text \<open>
  On four points in a row, with two pieces of width 5, every stop of the cursor is
  accepted: straight 0, corner 1, straight 1, corner 2, straight 2. Four attempts follow
  the first one.
\<close>

theorem advance_chain_counterexample:
  "\<not> isl four_points_attempt \<and> \<not> throw_away (projr four_points_attempt) \<and>
   length four_points = 4 \<and>
   length (advance_chain plain_env (projr four_points_attempt)) = 4 \<and>
   \<not> length (projr four_points_attempt # advance_chain plain_env (projr four_points_attempt))
       \<le> length four_points - 1"
proof -
  from four_points_chain obtain label where
    n: "four_points_attempt = Inr label" and
    l: "\<not> throw_away label" "length (advance_chain plain_env label) = 4"
    unfolding four_points_attempt_def by blast
  from l show ?thesis unfolding n sum.sel sum.disc by (simp add: four_points_def)
qed

theorem advance_chain_bound_witness:
  "\<exists>label. LabelLine_new plain_env (Fin 10, Fin 2) two_points rigid_layout = Inr label \<and>
     \<not> throw_away label \<and> \<not> layout_corners rigid_layout \<and>
     length (label # advance_chain plain_env label) \<le> 2 * length two_points - 3 \<and>
     length (label # advance_chain plain_env label) \<le> length two_points - 1 \<and>
     nextLabel plain_env (last (label # advance_chain plain_env label)) = Inr None"
proof -
  from rigid_new obtain label where
    l: "LabelLine_new plain_env (Fin 10, Fin 2) two_points rigid_layout = Inr label"
       "\<not> throw_away label" by blast
  have nc: "\<not> layout_corners rigid_layout"
    by (simp add: layout_corners_def rigid_layout_def)
  from advance_chain_bound[OF l] nc l show ?thesis by blast
qed

text \<open>
  C2. The claim: no operation of a placement attempt raises an error, for every input.
  The points of a segment are read from the line by index with no test of the range, and
  the vector subtraction reads the components of what it is given: a cursor that starts
  off the line (a line of one point; corner mode at index 0) ends the constructor with a
  TypeError. Amended, for a layout that has \<open>segment_size\<close>, \<open>buffer\<close> and \<open>offset\<close>, and
  for an engine on which the read of \<open>label\<close> ahead of its declaration in
  \<open>updateBBoxes\<close> yields \<open>undefined\<close> (\<open>let_tdz\<close> is false): when the cursor the
  constructor starts from is on the line (\<open>on_line\<close>: both points of the straight
  segment, or all three of the corner, exist), the constructor returns an attempt,
  discarded or itself on the line; on a state on the line the fit test returns a truth
  value, the angle (a list that is not empty) and the position are computed, the box
  update on the state that carries them returns normally, and so does \<open>update\<close>; the
  advance returns exhaustion or an attempt that is on the line again. The angle-bound
  test reads the angle that \<open>update\<close> has set and raises nothing. On an engine that keeps
  the temporal dead zone the box update raises a ReferenceError; the amended claim says
  nothing about that engine.
\<close>

theorem no_errors_on_line:
  assumes "\<not> let_tdz env"
  shows "(on_line (LabelLine_init sz ls lay) \<longrightarrow>
            (\<exists>s'. LabelLine_new env sz ls lay = Inr s' \<and> (throw_away s' \<or> on_line s'))) \<and>
         (on_line s \<longrightarrow>
            (\<exists>b s'. doesSegmentFit s (getCurrentSegment s) = Inr (b, s')) \<and>
            (\<exists>a p lb. getCurrentAngle s = Inr a \<and> a \<noteq> [] \<and> getCurrentPosition s = Inr p \<and>
               updateBBoxes env (s\<lparr>angle := a, position := Some p\<rparr>) =
                 Inr (s\<lparr>angle := a, position := Some p, labels := lb\<rparr>) \<and>
               update env s = Inr (s\<lparr>angle := a, position := Some p, labels := lb\<rparr>)) \<and>
            (\<exists>r. nextLabel env s = Inr r \<and> (case r of None \<Rightarrow> True | Some n \<Rightarrow> on_line n)))"
proof (intro conjI impI)
  assume o: "on_line (LabelLine_init sz ls lay)"
  from LabelLine_new_ok[OF assms o] obtain s' where n: "LabelLine_new env sz ls lay = Inr s'" by blast
  have "throw_away s' \<or> on_line s'"
  proof (cases "throw_away s'")
    case False
    from constructed_on_line(1)[OF n False] show ?thesis by simp
  qed simp
  with n show "\<exists>s'. LabelLine_new env sz ls lay = Inr s' \<and> (throw_away s' \<or> on_line s')" by blast
next
  assume o: "on_line s"
  show "\<exists>b s'. doesSegmentFit s (getCurrentSegment s) = Inr (b, s')" by (rule doesSegmentFit_ok[OF o])
  show "\<exists>a p lb. getCurrentAngle s = Inr a \<and> a \<noteq> [] \<and> getCurrentPosition s = Inr p \<and>
               updateBBoxes env (s\<lparr>angle := a, position := Some p\<rparr>) =
                 Inr (s\<lparr>angle := a, position := Some p, labels := lb\<rparr>) \<and>
               update env s = Inr (s\<lparr>angle := a, position := Some p, labels := lb\<rparr>)"
    by (rule update_parts[OF o assms])
  from nextLabel_ok[OF o assms] obtain r where r: "nextLabel env s = Inr r" by blast
  have "case r of None \<Rightarrow> True | Some n \<Rightarrow> on_line n"
  proof (cases r)
    case (Some n)
    with r nextLabel_on_line[of env s n] show ?thesis by simp
  qed simp
  with r show "\<exists>r. nextLabel env s = Inr r \<and> (case r of None \<Rightarrow> True | Some n \<Rightarrow> on_line n)"
    by blast
qed

text \<open>
  The line of one point, and the three-point line with corner mode and no index: the
  segment has an absent point and the constructor raises a TypeError.
\<close>

theorem no_errors_on_line_counterexample:
  "LabelLine_new plain_env (Fin 10, Fin 2) one_point plain_layout = Inl TypeError \<and>
   LabelLine_new plain_env (Fin 10, Fin 2) three_points corner_first_layout = Inl TypeError"
  by (simp add: one_point_raises corner_first_raises)

theorem no_errors_on_line_witness:
  "\<not> let_tdz plain_env \<and>
   on_line (LabelLine_init (Fin 10, Fin 2) two_points plain_layout) \<and>
   (\<exists>s'. LabelLine_new plain_env (Fin 10, Fin 2) two_points plain_layout = Inr s' \<and>
      (throw_away s' \<or> on_line s')) \<and>
   (\<exists>b s'. doesSegmentFit (LabelLine_init (Fin 10, Fin 2) two_points plain_layout)
      (getCurrentSegment (LabelLine_init (Fin 10, Fin 2) two_points plain_layout)) = Inr (b, s')) \<and>
   (\<exists>a p lb. getCurrentAngle (LabelLine_init (Fin 10, Fin 2) two_points plain_layout) = Inr a \<and>
      a \<noteq> [] \<and>
      getCurrentPosition (LabelLine_init (Fin 10, Fin 2) two_points plain_layout) = Inr p \<and>
      updateBBoxes plain_env ((LabelLine_init (Fin 10, Fin 2) two_points plain_layout)
                                \<lparr>angle := a, position := Some p\<rparr>) =
        Inr ((LabelLine_init (Fin 10, Fin 2) two_points plain_layout)
                \<lparr>angle := a, position := Some p, labels := lb\<rparr>) \<and>
      update plain_env (LabelLine_init (Fin 10, Fin 2) two_points plain_layout) =
        Inr ((LabelLine_init (Fin 10, Fin 2) two_points plain_layout)
                \<lparr>angle := a, position := Some p, labels := lb\<rparr>)) \<and>
   (\<exists>r. nextLabel plain_env (LabelLine_init (Fin 10, Fin 2) two_points plain_layout) = Inr r)"
proof -
  let ?s = "LabelLine_init (Fin 10, Fin 2) two_points plain_layout"
  have e: "\<not> let_tdz plain_env" by (simp add: plain_env_def)
  have pl: "placement ?s = MID_POINT" by (simp add: LabelLine_init_def plain_layout_def)
  have o: "on_line ?s"
    unfolding on_line_def pl
    by (simp add: LabelLine_init_def two_points_def plain_layout_def js_or_def)
  note t = no_errors_on_line[OF e, of "(Fin 10, Fin 2)" two_points plain_layout ?s]
  from t o have 1: "\<exists>s'. LabelLine_new plain_env (Fin 10, Fin 2) two_points plain_layout = Inr s' \<and>
      (throw_away s' \<or> on_line s')" by blast
  from t o have 2: "\<exists>b s'. doesSegmentFit ?s (getCurrentSegment ?s) = Inr (b, s')" by blast
  from t o have 3: "\<exists>a p lb. getCurrentAngle ?s = Inr a \<and> a \<noteq> [] \<and>
      getCurrentPosition ?s = Inr p \<and>
      updateBBoxes plain_env (?s\<lparr>angle := a, position := Some p\<rparr>) =
        Inr (?s\<lparr>angle := a, position := Some p, labels := lb\<rparr>) \<and>
      update plain_env ?s = Inr (?s\<lparr>angle := a, position := Some p, labels := lb\<rparr>)" by blast
  from t o have 4: "\<exists>r. nextLabel plain_env ?s = Inr r" by blast
  show ?thesis by (intro conjI) (fact e o 1 2 3 4)+
qed

text \<open>
  Not stated. C5 (a straight segment fits exactly when
  \<open>label_width_px * units_per_pixel < (100 / (100 - line_exceed)) * line_length\<close>), C6 (the
  angle of a segment lies in \<open>[0, 2\<pi>)\<close>) and C10 (the widths the corner search tests are
  the collapsed sizes exactly when \<open>size[0]\<close> is the sum of the pieces) are claims about
  the outcome of floating-point operations at the point where two numbers are equal or
  next to each other. Over the reals each of them holds (\<open>straight_fits_real\<close>,
  \<open>getAngleFromSegment_fin\<close>, \<open>fitKinkedSegment_fin\<close>); the program rounds, and there the
  program and the reals part: \<open>100 / 88 * 22\<close> is computed as a number above 25, the sum
  \<open>theta + 2\<pi>\<close> can round to \<open>2\<pi>\<close>, and \<open>46.2 - 30.2\<close> is not \<open>16\<close>. No theorem of this
  theory decides them.
\<close>


end
